theory Spec2Isabelle
  imports Complex_Main "HOL-Library.Sublist" "HOL-Library.AList" "HOL-Library.Multiset"
begin

section \<open>Strings of the source language\<close>

text \<open>
  A string of the program is a sequence of UTF-16 code units; a code unit is a natural
  number. \<open>js\<close> writes an ASCII literal of the source as such a sequence. The check mark
  glyph of the status parser is the single code unit U+2713.
\<close>

type_synonym jstring = "nat list"

definition js :: "string \<Rightarrow> jstring" where
  "js s = map of_char s"

definition checkmark :: jstring where
  "checkmark = [10003]"

text \<open>\<^verbatim>\<open>s.includes(pat)\<close>: \<open>pat\<close> occurs in \<open>s\<close> at some position.\<close>

fun includes_str :: "jstring \<Rightarrow> jstring \<Rightarrow> bool" where
  "includes_str [] pat = (pat = [])"
| "includes_str (c # cs) pat = (prefix pat (c # cs) \<or> includes_str cs pat)"

text \<open>\<^verbatim>\<open>s.endsWith(suf)\<close>.\<close>

definition endsWith :: "jstring \<Rightarrow> jstring \<Rightarrow> bool" where
  "endsWith s suf = suffix suf s"

text \<open>\<^verbatim>\<open>s.split('\n')\<close>: the pieces between line feeds; the empty string gives one empty piece.\<close>

fun split_lines :: "jstring \<Rightarrow> jstring list" where
  "split_lines [] = [[]]"
| "split_lines (c # cs) =
     (if c = 10 then [] # split_lines cs
      else (case split_lines cs of
              [] \<Rightarrow> [[c]]
            | l # ls \<Rightarrow> (c # l) # ls))"

text \<open>
  The white space of \<^verbatim>\<open>\s\<close> and of \<^verbatim>\<open>trim\<close> (blanks and line terminators), and the decimal
  digits of \<^verbatim>\<open>\d\<close>.
\<close>

definition isSpace :: "nat \<Rightarrow> bool" where
  "isSpace c =
     (c = 9 \<or> c = 10 \<or> c = 11 \<or> c = 12 \<or> c = 13 \<or> c = 32 \<or> c = 160 \<or> c = 5760
      \<or> (8192 \<le> c \<and> c \<le> 8202) \<or> c = 8232 \<or> c = 8233 \<or> c = 8239 \<or> c = 8287
      \<or> c = 12288 \<or> c = 65279)"

definition isDigit :: "nat \<Rightarrow> bool" where
  "isDigit c = (48 \<le> c \<and> c \<le> 57)"

text \<open>\<^verbatim>\<open>s.trim()\<close> is used only for its truthiness: the string has a non-blank code unit.\<close>

definition trim_truthy :: "jstring \<Rightarrow> bool" where
  "trim_truthy s = list_ex (\<lambda>c. \<not> isSpace c) s"

section \<open>The regular expressions of the source\<close>

text \<open>
  The fragment of the regular-expression language that the modelled functions use:
  literals, the classes \<^verbatim>\<open>\d\<close>, \<^verbatim>\<open>\s\<close>, \<^verbatim>\<open>\S\<close> and \<^verbatim>\<open>[0-9;]\<close> under the greedy quantifiers
  \<^verbatim>\<open>*\<close> and \<^verbatim>\<open>+\<close>, sequence, alternation, one capturing group, and the anchors
  \<^verbatim>\<open>^\<close> and \<^verbatim>\<open>$\<close> (no multiline flag).
\<close>

datatype cclass = Digit | Space | NonSpace | AnsiParam

fun in_class :: "cclass \<Rightarrow> nat \<Rightarrow> bool" where
  "in_class Digit c = isDigit c"
| "in_class Space c = isSpace c"
| "in_class NonSpace c = (\<not> isSpace c)"
| "in_class AnsiParam c = (isDigit c \<or> c = 59)"

datatype regex =
    Lit jstring
  | Star cclass
  | Plus cclass
  | Seq regex regex
  | Alt regex regex
  | Group regex
  | Bol
  | Eol

text \<open>
  A matcher state: the input before the current position, the input after it, and the text
  of capturing group 1 when the group has matched.
\<close>

type_synonym mstate = "jstring \<times> jstring \<times> jstring option"

text \<open>
  A greedy quantifier over a class offers every split of the run of class members at the
  current position, the longest first; the backtracking matcher tries them in that order.
\<close>

fun greedy :: "(nat \<Rightarrow> bool) \<Rightarrow> jstring \<Rightarrow> jstring \<Rightarrow> (jstring \<times> jstring) list" where
  "greedy p b [] = [(b, [])]"
| "greedy p b (c # cs) = (if p c then greedy p (b @ [c]) cs else []) @ [(b, c # cs)]"

text \<open>
  \<open>run r st\<close> lists the states in which \<open>r\<close> can end when started in \<open>st\<close>, in the order a
  backtracking matcher explores them: the head is the match it reports.
\<close>

fun run :: "regex \<Rightarrow> mstate \<Rightarrow> mstate list" where
  "run (Lit l) (b, r, g) = (if prefix l r then [(b @ l, drop (length l) r, g)] else [])"
| "run (Star c) (b, r, g) = map (\<lambda>(b', r'). (b', r', g)) (greedy (in_class c) b r)"
| "run (Plus c) (b, r, g) =
     (case r of
        [] \<Rightarrow> []
      | x # xs \<Rightarrow>
          if in_class c x
          then map (\<lambda>(b', r'). (b', r', g)) (greedy (in_class c) (b @ [x]) xs)
          else [])"
| "run (Seq x y) st = concat (map (run y) (run x st))"
| "run (Alt x y) st = run x st @ run y st"
| "run (Group x) (b, r, g) =
     map (\<lambda>(b', r', _). (b', r', Some (drop (length b) b'))) (run x (b, r, g))"
| "run Bol (b, r, g) = (if b = [] then [(b, r, g)] else [])"
| "run Eol (b, r, g) = (if r = [] then [(b, r, g)] else [])"

text \<open>
  The unanchored search of \<^verbatim>\<open>match\<close> and \<^verbatim>\<open>replace\<close>: the leftmost start position at which
  the expression matches. The result is the text before the match and the end state.
\<close>

fun search :: "regex \<Rightarrow> jstring \<Rightarrow> jstring \<Rightarrow> (jstring \<times> mstate) option" where
  "search rx b [] =
     (case run rx (b, [], None) of
        [] \<Rightarrow> None
      | st # _ \<Rightarrow> Some (b, st))"
| "search rx b (c # cs) =
     (case run rx (b, c # cs, None) of
        [] \<Rightarrow> search rx (b @ [c]) cs
      | st # _ \<Rightarrow> Some (b, st))"

text \<open>\<^verbatim>\<open>s.match(rx)?.[1]\<close>: group 1 of the first match, undefined when there is none.\<close>

definition match_group1 :: "regex \<Rightarrow> jstring \<Rightarrow> jstring option" where
  "match_group1 rx s =
     (case search rx [] s of
        None \<Rightarrow> None
      | Some (_, (_, _, g)) \<Rightarrow> g)"

text \<open>\<^verbatim>\<open>s.replace(rx, '')\<close> without the global flag: the first match is cut out.\<close>

definition replace_first :: "regex \<Rightarrow> jstring \<Rightarrow> jstring" where
  "replace_first rx s =
     (case search rx [] s of
        None \<Rightarrow> s
      | Some (pre, (_, rest, _)) \<Rightarrow> pre @ rest)"

text \<open>
  \<^verbatim>\<open>s.replace(rx, '')\<close> with the global flag: every match is cut out, left to right, each
  search resuming where the previous match ended; after an empty match the next code unit
  is copied and the search resumes behind it.
\<close>

function replace_all :: "regex \<Rightarrow> jstring \<Rightarrow> jstring \<Rightarrow> jstring" where
  "replace_all rx b r =
     (case run rx (b, r, None) of
        (b', r', _) # _ \<Rightarrow>
          if length r' < length r then replace_all rx b' r'
          else (case r of [] \<Rightarrow> [] | c # cs \<Rightarrow> c # replace_all rx (b @ [c]) cs)
      | [] \<Rightarrow> (case r of [] \<Rightarrow> [] | c # cs \<Rightarrow> c # replace_all rx (b @ [c]) cs))"
  by pat_completeness auto
termination
  by (relation "measure (\<lambda>(rx, b, r). length r)") auto

section \<open>Parsing the status command's output\<close>

text \<open>
  \<^verbatim>\<open>/(?:\[X\]|\<checkmark>)\s*\d+\s*(\S+)/\<close>, \<^verbatim>\<open>/\u001b\[[0-9;]*m/g\<close>, \<^verbatim>\<open>/\.(ts|js)$/\<close>, \<^verbatim>\<open>/^(\d+)/\<close> and
  \<^verbatim>\<open>/(\d+)/\<close>.
\<close>

definition applied_rx :: regex where
  "applied_rx =
     Seq (Alt (Lit (js ''[X]'')) (Lit checkmark))
       (Seq (Star Space) (Seq (Plus Digit) (Seq (Star Space) (Group (Plus NonSpace)))))"

definition ansi_rx :: regex where
  "ansi_rx = Seq (Lit [27, 91]) (Seq (Star AnsiParam) (Lit [109]))"

definition extension_rx :: regex where
  "extension_rx = Seq (Lit [46]) (Seq (Group (Alt (Lit (js ''ts'')) (Lit (js ''js'')))) Eol)"

definition leading_digits_rx :: regex where
  "leading_digits_rx = Seq Bol (Group (Plus Digit))"

definition digits_rx :: regex where
  "digits_rx = Group (Plus Digit)"

text \<open>
  The loop of \<open>parseAppliedMigrations\<close> over the lines. Group 1 of \<open>applied_rx\<close> takes part
  in every match, so the branch without it is never taken.
\<close>

fun parseLines :: "jstring list \<Rightarrow> jstring list" where
  "parseLines [] = []"
| "parseLines (line # ls) =
     (if includes_str line checkmark \<or> includes_str line (js ''[X]'')
      then (case search applied_rx [] line of
              Some (_, (_, _, Some nm)) \<Rightarrow> replace_all ansi_rx [] nm # parseLines ls
            | _ \<Rightarrow> parseLines ls)
      else parseLines ls)"

definition parseAppliedMigrations :: "jstring \<Rightarrow> jstring list" where
  "parseAppliedMigrations output = parseLines (split_lines output)"

section \<open>The data model\<close>

datatype migration_status = Pending | Applied | Failed

text \<open>
  \<open>Migration\<close>: the optional fields are options; \<^verbatim>\<open>id\<close> is never set and \<^verbatim>\<open>size\<close> is
  \<open>size_text\<close> here. The timestamp is a number of the source language, modelled as a
  rational: the value of a file name's digit run or a file's creation time in milliseconds.
\<close>

record Migration =
  name :: jstring
  timestamp :: rat
  status :: migration_status
  description :: "jstring option"
  size_text :: "jstring option"
  hash :: "jstring option"

record DatabaseInfo =
  host :: jstring
  database :: jstring
  connected :: bool
  migrationsCount :: nat
  pendingCount :: nat
  lastCheck :: int

record 'a CacheEntry =
  entry_data :: 'a
  entry_timestamp :: int
  entry_ttl :: int

section \<open>PerformanceCache\<close>

text \<open>
  The cache is a \<^verbatim>\<open>Map\<close> from strings to entries: an association list in insertion order.
  \<^verbatim>\<open>Map.set\<close> is \<open>AList.update\<close> (an existing key keeps its place, a new key goes to the
  end) and \<^verbatim>\<open>Map.delete\<close> is \<open>AList.delete\<close>. Every operation that reads the clock takes
  the reading \<open>now\<close> of \<^verbatim>\<open>Date.now()\<close> as an argument.
\<close>

type_synonym 'a PerformanceCache = "(jstring \<times> 'a CacheEntry) list"

definition DEFAULT_TTL :: int where
  "DEFAULT_TTL = 30000"

definition cache_set :: "int \<Rightarrow> jstring \<Rightarrow> 'a \<Rightarrow> int option \<Rightarrow> 'a PerformanceCache \<Rightarrow> 'a PerformanceCache" where
  "cache_set now key d ttl c =
     AList.update key
       \<lparr>entry_data = d, entry_timestamp = now,
        entry_ttl = (case ttl of None \<Rightarrow> DEFAULT_TTL | Some t \<Rightarrow> t)\<rparr> c"

text \<open>\<open>cache_get\<close> returns the value (\<open>None\<close> for \<^verbatim>\<open>null\<close>) and the cache after the read.\<close>

definition cache_get :: "int \<Rightarrow> jstring \<Rightarrow> 'a PerformanceCache \<Rightarrow> 'a option \<times> 'a PerformanceCache" where
  "cache_get now key c =
     (case map_of c key of
        None \<Rightarrow> (None, c)
      | Some entry \<Rightarrow>
          if now - entry_timestamp entry > entry_ttl entry
          then (None, AList.delete key c)
          else (Some (entry_data entry), c))"

definition cache_clear :: "'a PerformanceCache \<Rightarrow> 'a PerformanceCache" where
  "cache_clear c = []"

text \<open>
  \<open>invalidate\<close> walks the keys of the map and deletes each key that includes the pattern.
  Deleting the key under the iterator does not disturb the walk, so the loop runs over the
  keys the map had at its start.
\<close>

definition invalidate :: "jstring \<Rightarrow> 'a PerformanceCache \<Rightarrow> 'a PerformanceCache" where
  "invalidate pattern c =
     fold (\<lambda>key c'. if includes_str key pattern then AList.delete key c' else c') (map fst c) c"

section \<open>The shell's state\<close>

datatype filter_status = All | Only migration_status

datatype log_type = Info | Success | Warning | Error

text \<open>
  A log entry keeps the type and the message of the call; the wall-clock prefix and the
  colour tags that \<^verbatim>\<open>log\<close> wraps around the message are display only.
\<close>

type_synonym log_entry = "log_type \<times> jstring"

record Commands =
  showStatus :: jstring
  migrateUp :: jstring
  migrateDown :: jstring

record ShellState =
  migrationsDir :: jstring
  commands :: Commands
  migrations :: "Migration list"
  selectedIndex :: int
  dbInfo :: DatabaseInfo
  cache :: "Migration list PerformanceCache"
  isLoading :: bool
  searchTerm :: jstring
  filterStatus :: filter_status
  logBuffer :: "log_entry list"

definition MAX_LOG_ENTRIES :: nat where
  "MAX_LOG_ENTRIES = 1000"

definition log_line :: "jstring \<Rightarrow> log_type \<Rightarrow> ShellState \<Rightarrow> ShellState" where
  "log_line message type s =
     (let buf = logBuffer s @ [(type, message)]
      in s\<lparr>logBuffer :=
             (if length buf > MAX_LOG_ENTRIES then drop (length buf - MAX_LOG_ENTRIES) buf
              else buf)\<rparr>)"

section \<open>Filtering and the selection\<close>

text \<open>
  \<^verbatim>\<open>String.prototype.toLowerCase\<close> belongs to the runtime, not to the program: it is the
  parameter \<open>lc\<close> of every function that filters. \<open>ascii_lower\<close> is the part of it on
  ASCII letters, for concrete runs.
\<close>

definition ascii_lower :: "jstring \<Rightarrow> jstring" where
  "ascii_lower s = map (\<lambda>c. if 65 \<le> c \<and> c \<le> 90 then c + 32 else c) s"

definition getFilteredMigrations :: "(jstring \<Rightarrow> jstring) \<Rightarrow> ShellState \<Rightarrow> Migration list" where
  "getFilteredMigrations lc s =
     (let filtered = migrations s;
          filtered = (if filterStatus s \<noteq> All
                      then filter (\<lambda>m. Only (status m) = filterStatus s) filtered
                      else filtered);
          filtered = (if searchTerm s \<noteq> []
                      then (let term = lc (searchTerm s)
                            in filter (\<lambda>m. includes_str (lc (name m)) term \<or>
                                   (case description m of
                                      None \<Rightarrow> False
                                    | Some d \<Rightarrow> d \<noteq> [] \<and> includes_str (lc d) term)) filtered)
                      else filtered)
      in filtered)"

text \<open>
  \<open>updateMigrationsList\<close> redraws the list widget; what it does to the state is the clamp of
  the selection.
\<close>

definition updateMigrationsList :: "(jstring \<Rightarrow> jstring) \<Rightarrow> ShellState \<Rightarrow> ShellState" where
  "updateMigrationsList lc s =
     (let filtered = getFilteredMigrations lc s
      in if selectedIndex s \<ge> int (length filtered)
         then s\<lparr>selectedIndex := max 0 (int (length filtered) - 1)\<rparr>
         else s)"

definition applyFilters :: "(jstring \<Rightarrow> jstring) \<Rightarrow> ShellState \<Rightarrow> ShellState" where
  "applyFilters lc s = updateMigrationsList lc s"

fun next_filter :: "filter_status \<Rightarrow> filter_status" where
  "next_filter All = Only Pending"
| "next_filter (Only Pending) = Only Applied"
| "next_filter (Only Applied) = Only Failed"
| "next_filter (Only Failed) = All"

fun filter_name :: "filter_status \<Rightarrow> jstring" where
  "filter_name All = js ''all''"
| "filter_name (Only Pending) = js ''pending''"
| "filter_name (Only Applied) = js ''applied''"
| "filter_name (Only Failed) = js ''failed''"

definition cycleFilter :: "(jstring \<Rightarrow> jstring) \<Rightarrow> ShellState \<Rightarrow> ShellState" where
  "cycleFilter lc s =
     (let s1 = applyFilters lc (s\<lparr>filterStatus := next_filter (filterStatus s)\<rparr>)
      in log_line (js ''Filter changed to: '' @ filter_name (filterStatus s1)) Info s1)"

text \<open>The handler of the search box's \<^verbatim>\<open>submit\<close> event.\<close>

definition searchBox_submit :: "(jstring \<Rightarrow> jstring) \<Rightarrow> jstring \<Rightarrow> ShellState \<Rightarrow> ShellState" where
  "searchBox_submit lc v s = applyFilters lc (s\<lparr>searchTerm := v\<rparr>)"

text \<open>The decimal text of a natural number, as a template literal writes a length.\<close>

function toString_nat :: "nat \<Rightarrow> jstring" where
  "toString_nat n = (if n < 10 then [48 + n] else toString_nat (n div 10) @ [48 + n mod 10])"
  by pat_completeness auto
termination
  by (relation "measure id") auto

section \<open>Loading the inventory\<close>

text \<open>
  What the outside world answers during one load. A thrown value is an \<^verbatim>\<open>Error\<close> with its
  message or something else. For each file the scan takes the creation time from
  \<^verbatim>\<open>fs.stat\<close> and, from the file's size and content, the results of \<open>extractDescription\<close>,
  \<open>formatFileSize\<close> and \<open>generateHash\<close>, which are carried here as the facts of the file.
  The clock is read three times: by the cache lookup, for \<open>lastCheck\<close>, and by the cache
  store.
\<close>

datatype thrown = ErrorObj jstring | NonError

fun errorMessage :: "thrown \<Rightarrow> jstring" where
  "errorMessage (ErrorObj msg) = msg"
| "errorMessage NonError = js ''Unknown error''"

record FileFacts =
  birthtimeMs :: rat
  file_description :: jstring
  file_size :: jstring
  file_hash :: jstring

record Env =
  ensureDir :: "thrown option"
  readdir :: "thrown + jstring list"
  statAndRead :: "jstring \<Rightarrow> thrown + FileFacts"
  execShowStatus :: "thrown + jstring"
  now_lookup :: int
  now_check :: int
  now_store :: int

text \<open>The calls a load makes to the file system and to the external command, in order.\<close>

datatype io_action =
    EnsureDir jstring
  | Readdir jstring
  | StatAndRead jstring
  | ExecSync jstring

text \<open>
  A number of the source is a double. \<open>to_double\<close> is the double nearest to a natural
  number: the number itself below \<open>2^53\<close>, and above that the nearest multiple of the power
  of two that leaves 53 significant bits, a tie going to the even multiple. (A number of 309
  digits or more would overflow; a file name is at most 255 code units long.)
\<close>

function bitlen :: "nat \<Rightarrow> nat" where
  "bitlen n = (if n = 0 then 0 else Suc (bitlen (n div 2)))"
  by pat_completeness auto
termination
  by (relation "measure id") auto

declare bitlen.simps [simp del]

definition to_double :: "nat \<Rightarrow> rat" where
  "to_double n =
     (if n < 9007199254740992 then of_nat n
      else (let e = bitlen n - 53;
                q = n div 2 ^ e;
                r = n mod 2 ^ e;
                h = 2 ^ (e - 1)
            in if r > h \<or> (r = h \<and> odd q) then of_nat ((q + 1) * 2 ^ e)
               else of_nat (q * 2 ^ e)))"

text \<open>\<^verbatim>\<open>parseInt\<close> of a run of decimal digits: the double of the run's decimal value.\<close>

definition parseInt :: "jstring \<Rightarrow> rat" where
  "parseInt ds = to_double (foldl (\<lambda>acc c. 10 * acc + (c - 48)) 0 ds)"

definition newMigration :: "jstring \<Rightarrow> FileFacts \<Rightarrow> Migration" where
  "newMigration file facts =
     \<lparr>name = file,
      timestamp = (case match_group1 leading_digits_rx file of
                     Some d \<Rightarrow> parseInt d
                   | None \<Rightarrow> birthtimeMs facts),
      status = Pending,
      description = Some (file_description facts),
      size_text = Some (file_size facts),
      hash = Some (file_hash facts)\<rparr>"

text \<open>The loop over the migration files: the first file that cannot be read aborts it.\<close>

fun scanFiles :: "(jstring \<Rightarrow> thrown + FileFacts) \<Rightarrow> jstring list \<Rightarrow>
    (thrown + Migration list) \<times> io_action list" where
  "scanFiles rd [] = (Inr [], [])"
| "scanFiles rd (file # files) =
     (case rd file of
        Inl e \<Rightarrow> (Inl e, [StatAndRead file])
      | Inr facts \<Rightarrow>
          (case scanFiles rd files of
             (Inl e, io) \<Rightarrow> (Inl e, StatAndRead file # io)
           | (Inr ms, io) \<Rightarrow> (Inr (newMigration file facts # ms), StatAndRead file # io)))"

definition isMigrationFile :: "jstring \<Rightarrow> bool" where
  "isMigrationFile file = (endsWith file (js ''.ts'') \<or> endsWith file (js ''.js''))"

definition scanDirectory :: "Env \<Rightarrow> jstring \<Rightarrow> (thrown + Migration list) \<times> io_action list" where
  "scanDirectory env dir =
     (case ensureDir env of
        Some e \<Rightarrow> (Inl e, [EnsureDir dir])
      | None \<Rightarrow>
          (case readdir env of
             Inl e \<Rightarrow> (Inl e, [EnsureDir dir, Readdir dir])
           | Inr files \<Rightarrow>
               (case scanFiles (statAndRead env) (filter isMigrationFile files) of
                  (r, io) \<Rightarrow> (r, [EnsureDir dir, Readdir dir] @ io))))"

text \<open>
  The reconciliation of one record against the names parsed from the status output.
  A string is truthy when it is not empty.
\<close>

definition isApplied :: "jstring list \<Rightarrow> Migration \<Rightarrow> bool" where
  "isApplied appliedMigrations migration =
     (let baseName = replace_first extension_rx (name migration);
          migrationTimestamp = match_group1 leading_digits_rx baseName
      in list_ex (\<lambda>appliedName.
           (let appliedTimestamp = match_group1 digits_rx appliedName
            in (case (migrationTimestamp, appliedTimestamp) of
                  (Some a, Some b) \<Rightarrow> a \<noteq> [] \<and> b \<noteq> [] \<and> a = b
                | _ \<Rightarrow> False))) appliedMigrations)"

definition markApplied :: "jstring list \<Rightarrow> Migration list \<Rightarrow> Migration list" where
  "markApplied appliedMigrations ms =
     map (\<lambda>m. if isApplied appliedMigrations m then m\<lparr>status := Applied\<rparr> else m) ms"

text \<open>
  \<open>loadMigrations\<close> returns the state after the load and the calls it made. The array sort
  with the comparator \<^verbatim>\<open>a.timestamp - b.timestamp\<close> is the stable sort by timestamp.
\<close>

definition loadMigrations :: "(jstring \<Rightarrow> jstring) \<Rightarrow> Env \<Rightarrow> ShellState \<Rightarrow> ShellState \<times> io_action list" where
  "loadMigrations lc env s =
     (if isLoading s then (s, [])
      else
        (case cache_get (now_lookup env) (js ''migrations'') (cache s) of
           (Some cached, c') \<Rightarrow>
             (updateMigrationsList lc (s\<lparr>cache := c', migrations := cached\<rparr>), [])
         | (None, c') \<Rightarrow>
             (let s1 = log_line (js ''Loading migrations...'') Info (s\<lparr>cache := c', isLoading := True\<rparr>)
              in (case scanDirectory env (migrationsDir s1) of
                    (Inl e, io) \<Rightarrow>
                      ((log_line (js ''Error loading migrations: '' @ errorMessage e) Error s1)
                         \<lparr>isLoading := False\<rparr>, io)
                  | (Inr scanned, io) \<Rightarrow>
                      (let sorted = sort_key timestamp scanned;
                           (ms, s2) =
                             (case execShowStatus env of
                                Inr statusOutput \<Rightarrow>
                                  (markApplied (parseAppliedMigrations statusOutput) sorted,
                                   s1\<lparr>dbInfo := (dbInfo s1)\<lparr>connected := True\<rparr>\<rparr>)
                              | Inl e \<Rightarrow>
                                  (sorted,
                                   log_line (js ''Could not fetch migration status: '' @ errorMessage e)
                                     Warning (s1\<lparr>dbInfo := (dbInfo s1)\<lparr>connected := False\<rparr>\<rparr>)));
                           s3 = s2\<lparr>migrations := ms,
                                   dbInfo := (dbInfo s2)
                                     \<lparr>migrationsCount := length ms,
                                      pendingCount := length (filter (\<lambda>m. status m = Pending) ms),
                                      lastCheck := now_check env\<rparr>,
                                   cache := cache_set (now_store env) (js ''migrations'') ms
                                              (Some 60000) (cache s2)\<rparr>;
                           s4 = updateMigrationsList lc s3;
                           s5 = log_line (js ''Loaded '' @ toString_nat (length ms) @ js '' migrations'')
                                  Success s4
                       in (s5\<lparr>isLoading := False\<rparr>,
                           io @ [ExecSync (showStatus (commands s1))]))))))"

section \<open>Construction and the mutation commands\<close>

text \<open>
  The configuration object. Its \<^verbatim>\<open>commands\<close> member is an object of the source language: the
  list of its properties, whatever their names. \<^verbatim>\<open>a || b\<close> on strings takes \<open>b\<close> when \<open>a\<close> is
  undefined or empty.
\<close>

record MigrationShellConfig =
  cfg_migrationsDir :: "jstring option"
  cfg_autoRefreshInterval :: "rat option"
  cfg_commands :: "(jstring \<times> jstring) list option"
  cfg_database :: "(jstring \<times> jstring) list option"

definition or_default :: "jstring option \<Rightarrow> jstring \<Rightarrow> jstring" where
  "or_default v d = (case v of None \<Rightarrow> d | Some x \<Rightarrow> if x \<noteq> [] then x else d)"

definition command_property :: "MigrationShellConfig \<Rightarrow> jstring \<Rightarrow> jstring option" where
  "command_property config key =
     (case cfg_commands config of None \<Rightarrow> None | Some obj \<Rightarrow> map_of obj key)"

text \<open>
  The constructor; \<open>default_dir\<close> is \<^verbatim>\<open>path.join(process.cwd(), 'migrations')\<close>. The widgets
  it builds are not part of the state.
\<close>

definition new_shell :: "jstring \<Rightarrow> MigrationShellConfig \<Rightarrow> ShellState" where
  "new_shell default_dir config =
     \<lparr>migrationsDir = or_default (cfg_migrationsDir config) default_dir,
      commands =
        \<lparr>showStatus = or_default (command_property config (js ''showStatus''))
                        (js ''pnpm run migration:show''),
         migrateUp = or_default (command_property config (js ''migrateUp''))
                       (js ''pnpm run migrate:up''),
         migrateDown = or_default (command_property config (js ''migrateDown''))
                         (js ''pnpm run migrate:down'')\<rparr>,
      migrations = [],
      selectedIndex = 0,
      dbInfo = \<lparr>host = js ''localhost'', database = js ''eternal_app'', connected = False,
                migrationsCount = 0, pendingCount = 0, lastCheck = 0\<rparr>,
      cache = [],
      isLoading = False,
      searchTerm = [],
      filterStatus = All,
      logBuffer = []\<rparr>"

text \<open>
  The command line that each mutation hands to \<open>executeCommand\<close>: the name dialogs of
  \<open>createMigration\<close> and \<open>generateMigration\<close> on submit (none for a blank name), and
  \<open>applyMigrations\<close> and \<open>revertMigration\<close> once confirmed.
\<close>

definition createMigration_command :: "ShellState \<Rightarrow> jstring \<Rightarrow> jstring option" where
  "createMigration_command s nm =
     (if trim_truthy nm then Some (js ''pnpm run migration:create migrations/'' @ nm) else None)"

definition generateMigration_command :: "ShellState \<Rightarrow> jstring \<Rightarrow> jstring option" where
  "generateMigration_command s nm =
     (if trim_truthy nm then Some (js ''pnpm run migration:generate migrations/'' @ nm) else None)"

definition applyMigrations_command :: "ShellState \<Rightarrow> bool \<Rightarrow> jstring option" where
  "applyMigrations_command s confirmed = (if confirmed then Some (migrateUp (commands s)) else None)"

definition revertMigration_command :: "ShellState \<Rightarrow> bool \<Rightarrow> jstring option" where
  "revertMigration_command s confirmed = (if confirmed then Some (migrateDown (commands s)) else None)"

section \<open>Notions of the specification\<close>

text \<open>
  The leading digit run of a string is its longest prefix of decimal digits, when that is
  not empty; the first digit run is the leading digit run of what remains once the
  non-digits at the front are dropped.
\<close>

definition leading_digit_run :: "jstring \<Rightarrow> jstring option" where
  "leading_digit_run s = (if takeWhile isDigit s = [] then None else Some (takeWhile isDigit s))"

definition first_digit_run :: "jstring \<Rightarrow> jstring option" where
  "first_digit_run s = leading_digit_run (dropWhile (\<lambda>c. \<not> isDigit c) s)"

text \<open>
  A file name agrees with a list of applied names when it has a leading digit run and some
  applied name has that run as its first digit run.
\<close>

definition agrees_with_applied :: "jstring list \<Rightarrow> jstring \<Rightarrow> bool" where
  "agrees_with_applied toks nm =
     list_ex (\<lambda>tok. leading_digit_run nm \<noteq> None \<and> first_digit_run tok = leading_digit_run nm) toks"





text \<open>
  A status report as the external tool may print it. A name is plain text, without white
  space and without an escape character of its own, with colour codes (escape, bracket,
  parameters of digits and semicolons, \<^verbatim>\<open>m\<close>) anywhere in it. An applied
  line is a lead-in that holds no marker, a marker (the token \<^verbatim>\<open>[X]\<close> or the check mark),
  blanks or none, an ordinal, blanks (or none before a name that does not start with a
  digit), a name, and a trailer that is empty or starts with a blank. Any other line has no
  marker that is followed, after blanks or none, by a digit. The report is its lines joined
  by line feeds; the applied names are the plain texts of the names on its applied lines.
\<close>

datatype name_part = Plain jstring | Colour jstring

fun part_text :: "name_part \<Rightarrow> jstring" where
  "part_text (Plain t) = t"
| "part_text (Colour ps) = [27, 91] @ ps @ [109]"

fun part_plain :: "name_part \<Rightarrow> jstring" where
  "part_plain (Plain t) = t"
| "part_plain (Colour ps) = []"

fun well_formed_part :: "name_part \<Rightarrow> bool" where
  "well_formed_part (Plain t) = list_all (\<lambda>c. \<not> isSpace c \<and> c \<noteq> 27) t"
| "well_formed_part (Colour ps) = list_all (\<lambda>c. isDigit c \<or> c = 59) ps"

definition isBlank :: "nat \<Rightarrow> bool" where
  "isBlank c = (isSpace c \<and> c \<noteq> 10)"

definition starts_with_digit :: "jstring \<Rightarrow> bool" where
  "starts_with_digit r = (case r of [] \<Rightarrow> False | c # cs \<Rightarrow> isDigit c)"

definition ordinal_after :: "jstring \<Rightarrow> jstring \<Rightarrow> bool" where
  "ordinal_after marker r =
     (prefix marker r \<and> starts_with_digit (dropWhile isSpace (drop (length marker) r)))"

fun no_applied_start :: "jstring \<Rightarrow> bool" where
  "no_applied_start [] = True"
| "no_applied_start (c # cs) =
     (\<not> ordinal_after (js ''[X]'') (c # cs) \<and> \<not> ordinal_after checkmark (c # cs) \<and>
      no_applied_start cs)"

datatype report_line =
    AppliedLine jstring jstring jstring jstring jstring "name_part list" jstring
  | OtherLine jstring

fun line_text :: "report_line \<Rightarrow> jstring" where
  "line_text (AppliedLine lead marker gap ordinal gap' parts trailer) =
     lead @ marker @ gap @ ordinal @ gap' @ concat (map part_text parts) @ trailer"
| "line_text (OtherLine t) = t"

fun well_formed_line :: "report_line \<Rightarrow> bool" where
  "well_formed_line (AppliedLine lead marker gap ordinal gap' parts trailer) =
     (\<not> includes_str lead checkmark \<and> \<not> includes_str lead (js ''[X]'') \<and> 10 \<notin> set lead \<and>
      (marker = js ''[X]'' \<or> marker = checkmark) \<and>
      list_all isBlank gap \<and>
      ordinal \<noteq> [] \<and> list_all isDigit ordinal \<and>
      list_all isBlank gap' \<and>
      (gap' \<noteq> [] \<or> \<not> starts_with_digit (concat (map part_text parts))) \<and>
      concat (map part_text parts) \<noteq> [] \<and> list_all well_formed_part parts \<and>
      (trailer = [] \<or> isBlank (hd trailer)) \<and> 10 \<notin> set trailer)"
| "well_formed_line (OtherLine t) = (no_applied_start t \<and> 10 \<notin> set t)"

fun join_lines :: "jstring list \<Rightarrow> jstring" where
  "join_lines [] = []"
| "join_lines [l] = l"
| "join_lines (l # l' # ls) = l @ [10] @ join_lines (l' # ls)"

definition status_report :: "report_line list \<Rightarrow> jstring" where
  "status_report rows = join_lines (map line_text rows)"

fun applied_names :: "report_line list \<Rightarrow> jstring list" where
  "applied_names [] = []"
| "applied_names (AppliedLine lead marker gap ordinal gap' parts trailer # rows) =
     concat (map part_plain parts) # applied_names rows"
| "applied_names (OtherLine t # rows) = applied_names rows"

text \<open>The clamp of the selection against a list of \<open>n\<close> entries.\<close>

definition clamp_selection :: "int \<Rightarrow> nat \<Rightarrow> int" where
  "clamp_selection i n = (if i \<ge> int n then max 0 (int n - 1) else i)"

section \<open>Sample data for concrete runs\<close>

definition no_config :: MigrationShellConfig where
  "no_config = \<lparr>cfg_migrationsDir = None, cfg_autoRefreshInterval = None,
                 cfg_commands = None, cfg_database = None\<rparr>"

definition sample_shell :: ShellState where
  "sample_shell = new_shell (js ''/app/migrations'') no_config"

definition sample_inventory :: "Migration list" where
  "sample_inventory =
     [\<lparr>name = js ''100-init.ts'', timestamp = 100, status = Pending,
        description = Some (js ''Create FOO table''), size_text = None, hash = None\<rparr>,
      \<lparr>name = js ''200-bar.ts'', timestamp = 200, status = Pending,
        description = Some (js ''adds column''), size_text = None, hash = None\<rparr>,
      \<lparr>name = js ''300-foo.ts'', timestamp = 300, status = Applied,
        description = Some (js ''foo''), size_text = None, hash = None\<rparr>,
      \<lparr>name = js ''400-baz.ts'', timestamp = 400, status = Applied,
        description = None, size_text = None, hash = None\<rparr>,
      \<lparr>name = js ''500-qux.ts'', timestamp = 500, status = Applied,
        description = Some [], size_text = None, hash = None\<rparr>]"

definition sample_facts :: FileFacts where
  "sample_facts = \<lparr>birthtimeMs = 1700000000000, file_description = js ''Migration'',
                    file_size = js ''1 KB'', file_hash = js ''1a2b''\<rparr>"

text \<open>The configuration that the README gives as its advanced example.\<close>

definition readme_config :: MigrationShellConfig where
  "readme_config =
     \<lparr>cfg_migrationsDir = Some (js ''./custom-migrations''),
      cfg_autoRefreshInterval = Some 60000,
      cfg_commands = Some
        [(js ''showStatus'', js ''npm run migration:status''),
         (js ''migrateUp'', js ''npm run migrate:up''),
         (js ''migrateDown'', js ''npm run migrate:down''),
         (js ''create'', js ''npm run migration:create''),
         (js ''generate'', js ''npm run migration:generate'')],
      cfg_database = Some [(js ''host'', js ''localhost''), (js ''name'', js ''my_database'')]\<rparr>"

text \<open>
  A report of four lines: a heading that shows both markers, an indented applied line with
  two blanks before a coloured name, a pending line, and an applied line with the check mark
  and a trailer.
\<close>

definition sample_report :: "report_line list" where
  "sample_report =
     [OtherLine (js ''Legend: [X] applied '' @ checkmark @ js '' applied, [ ] pending''),
      AppliedLine (js ''  '') (js ''[X]'') (js '' '') (js ''1'') (js ''  '')
        [Colour (js ''32''), Plain (js ''Init100''), Colour (js ''0'')] [],
      OtherLine (js ''[ ] 2 Mid200''),
      AppliedLine [] checkmark (js '' '') (js ''3'') (js '' '')
        [Plain (js ''Last300'')] (js '' (applied)'')]"

text \<open>
  A world in which the directory holds the given files, every file can be read, and the
  status command answers as given.
\<close>

definition sample_env :: "jstring list \<Rightarrow> thrown + jstring \<Rightarrow> Env" where
  "sample_env files st =
     \<lparr>ensureDir = None, readdir = Inr files, statAndRead = (\<lambda>f. Inr sample_facts),
      execShowStatus = st, now_lookup = 1000, now_check = 1001, now_store = 1002\<rparr>"

section \<open>The ordering invariant\<close>

text \<open>
  The inventory, and every inventory held in the cache, is in ascending order of timestamp
  (equal timestamps allowed).
\<close>

definition inventory_sorted :: "ShellState \<Rightarrow> bool" where
  "inventory_sorted s =
     (sorted (map timestamp (migrations s)) \<and>
      list_all (\<lambda>(k, e). sorted (map timestamp (entry_data e))) (cache s))"

section \<open>Verified properties\<close>

subsection \<open>The regular expressions on arbitrary strings\<close>

lemma greedy_head:
  "\<exists>rest. greedy p b r = (b @ takeWhile p r, dropWhile p r) # rest"
proof (induction r arbitrary: b)
  case Nil
  show ?case by simp
next
  case (Cons c cs)
  show ?case
  proof (cases "p c")
    case True
    from Cons.IH [of "b @ [c]"] obtain rest
      where "greedy p (b @ [c]) cs = ((b @ [c]) @ takeWhile p cs, dropWhile p cs) # rest" by blast
    with True show ?thesis by simp
  next
    case False
    then show ?thesis by simp
  qed
qed

lemma in_class_Digit: "in_class Digit = isDigit"
  by (rule ext) simp

lemma run_digits_none:
  "takeWhile isDigit r = [] \<Longrightarrow> run (Group (Plus Digit)) (b, r, g) = []"
  by (cases r) (auto split: if_splits)

lemma run_digits_head:
  assumes "takeWhile isDigit r \<noteq> []"
  shows "\<exists>rest. run (Group (Plus Digit)) (b, r, g) =
           (b @ takeWhile isDigit r, dropWhile isDigit r, Some (takeWhile isDigit r)) # rest"
proof (cases r)
  case Nil
  with assms show ?thesis by simp
next
  case (Cons x xs)
  with assms have d: "isDigit x" by (auto split: if_splits)
  obtain rest where "greedy isDigit (b @ [x]) xs =
      ((b @ [x]) @ takeWhile isDigit xs, dropWhile isDigit xs) # rest"
    using greedy_head by blast
  with Cons d show ?thesis by (simp add: in_class_Digit)
qed

lemma search_leading_later:
  "b \<noteq> [] \<Longrightarrow> search leading_digits_rx b r = None"
  by (induction r arbitrary: b) (simp_all add: leading_digits_rx_def)

lemma match_leading_digits:
  "match_group1 leading_digits_rx s = leading_digit_run s"
proof (cases "takeWhile isDigit s = []")
  case True
  have r: "run leading_digits_rx ([], s, None) = []"
    using run_digits_none [OF True, of "[]" None]
    by (simp add: leading_digits_rx_def del: run.simps(6))
  show ?thesis
  proof (cases s)
    case Nil
    then show ?thesis by (simp add: match_group1_def leading_digit_run_def leading_digits_rx_def)
  next
    case (Cons c cs)
    with r True show ?thesis
      by (simp add: match_group1_def leading_digit_run_def search_leading_later)
  qed
next
  case False
  then obtain rest where r: "run leading_digits_rx ([], s, None) =
      (takeWhile isDigit s, dropWhile isDigit s, Some (takeWhile isDigit s)) # rest"
    using run_digits_head [OF False, of "[]" None]
    by (auto simp add: leading_digits_rx_def simp del: run.simps(6))
  show ?thesis
    using r False by (cases s) (simp_all add: match_group1_def leading_digit_run_def)
qed

lemma search_digits:
  "search digits_rx b s =
     (if takeWhile isDigit (dropWhile (\<lambda>c. \<not> isDigit c) s) = [] then None
      else Some (b @ takeWhile (\<lambda>c. \<not> isDigit c) s,
                 (b @ takeWhile (\<lambda>c. \<not> isDigit c) s @ takeWhile isDigit (dropWhile (\<lambda>c. \<not> isDigit c) s),
                  dropWhile isDigit (dropWhile (\<lambda>c. \<not> isDigit c) s),
                  Some (takeWhile isDigit (dropWhile (\<lambda>c. \<not> isDigit c) s)))))"
proof (induction s arbitrary: b)
  case Nil
  show ?case by (simp add: digits_rx_def)
next
  case (Cons c cs)
  show ?case
  proof (cases "isDigit c")
    case True
    then have ne: "takeWhile isDigit (c # cs) \<noteq> []" by simp
    from run_digits_head [OF ne, of b None] obtain rest where
      "run digits_rx (b, c # cs, None) =
         (b @ takeWhile isDigit (c # cs), dropWhile isDigit (c # cs), Some (takeWhile isDigit (c # cs))) # rest"
      by (auto simp: digits_rx_def simp del: run.simps(6))
    with True show ?thesis by simp
  next
    case False
    then have "takeWhile isDigit (c # cs) = []" by simp
    from run_digits_none [OF this, of b None]
    have "run digits_rx (b, c # cs, None) = []" by (simp add: digits_rx_def del: run.simps(6))
    with False Cons.IH [of "b @ [c]"] show ?thesis by simp
  qed
qed

lemma match_digits: "match_group1 digits_rx s = first_digit_run s"
  by (simp add: match_group1_def search_digits first_digit_run_def leading_digit_run_def)

lemma run_extension_shape:
  assumes "(b', r', g') \<in> set (run extension_rx (b, r, g))"
  shows "r' = [] \<and> (\<exists>x. r = 46 # x)"
proof -
  from assms have p: "prefix [46] r"
    by (auto simp: extension_rx_def split: if_splits)
  then obtain x where x: "r = 46 # x" by (cases r) auto
  from assms have "r' = []"
    by (auto simp: extension_rx_def split: if_splits)
  with x show ?thesis by blast
qed

lemma search_extension_shape:
  "search extension_rx b r = Some (pre, (e, rest, g)) \<Longrightarrow>
     rest = [] \<and> (\<exists>p x. r = p @ 46 # x \<and> pre = b @ p)"
proof (induction r arbitrary: b)
  case Nil
  then show ?case by (simp add: extension_rx_def)
next
  case (Cons c cs)
  show ?case
  proof (cases "run extension_rx (b, c # cs, None)")
    case Nil
    with Cons.prems have "search extension_rx (b @ [c]) cs = Some (pre, (e, rest, g))" by simp
    from Cons.IH [OF this] obtain p x where "rest = []" "cs = p @ 46 # x" "pre = (b @ [c]) @ p"
      by blast
    then have "rest = [] \<and> c # cs = (c # p) @ 46 # x \<and> pre = b @ (c # p)" by simp
    then show ?thesis by blast
  next
    case (Cons st sts)
    with Cons.prems have st: "st = (e, rest, g)" and pre: "pre = b" by simp_all
    from Cons st have "(e, rest, g) \<in> set (run extension_rx (b, c # cs, None))" by simp
    from run_extension_shape [OF this] obtain x where "rest = []" "c # cs = 46 # x" by blast
    with pre have "rest = [] \<and> c # cs = [] @ 46 # x \<and> pre = b @ []" by simp
    then show ?thesis by blast
  qed
qed

lemma not_digit_46: "\<not> isDigit 46"
  by (simp add: isDigit_def)

lemma takeWhile_digit_before_dot:
  "takeWhile isDigit (p @ 46 # x) = takeWhile isDigit p"
  by (induction p) (simp_all add: not_digit_46)

lemma leading_digit_run_baseName:
  "leading_digit_run (replace_first extension_rx s) = leading_digit_run s"
proof (cases "search extension_rx [] s")
  case None
  then show ?thesis by (simp add: replace_first_def)
next
  case (Some res)
  obtain pre e rest g where res: "res = (pre, (e, rest, g))" by (cases res) auto
  from search_extension_shape [of "[]" s pre e rest g] Some res
  obtain p x where "rest = []" "s = p @ 46 # x" "pre = p" by auto
  with Some res show ?thesis
    by (simp add: replace_first_def leading_digit_run_def takeWhile_digit_before_dot)
qed

lemma leading_digit_run_nonempty: "leading_digit_run s = Some d \<Longrightarrow> d \<noteq> []"
  by (auto simp: leading_digit_run_def split: if_splits)

subsection \<open>The status reconciler\<close>

lemma isApplied_iff:
  "isApplied toks m \<longleftrightarrow> agrees_with_applied toks (name m)"
proof -
  have one: "(case (leading_digit_run (name m), first_digit_run tok) of
                (Some a, Some b) \<Rightarrow> a \<noteq> [] \<and> b \<noteq> [] \<and> a = b
              | _ \<Rightarrow> False)
             \<longleftrightarrow> (leading_digit_run (name m) \<noteq> None \<and>
                  first_digit_run tok = leading_digit_run (name m))"
    for tok
    by (cases "leading_digit_run (name m)"; cases "first_digit_run tok")
       (auto dest: leading_digit_run_nonempty)
  show ?thesis
    unfolding isApplied_def agrees_with_applied_def Let_def match_leading_digits match_digits
      leading_digit_run_baseName one ..
qed

lemmas eval_strings = js_def checkmark_def isDigit_def isSpace_def

lemmas eval_parse = eval_strings applied_rx_def ansi_rx_def parseAppliedMigrations_def

text \<open>
  C1 (as amended). For every inventory of pending records and every status output, the
  reconciler marks a record Applied exactly when the record's leading digit run equals, as a
  string, the first digit run (wherever it stands in the token, not only at its front) of
  some applied name parsed from the output; every other record stays Pending and no other
  field changes.
\<close>

theorem reconciler_marks_first_digit_run:
  assumes "list_all (\<lambda>m. status m = Pending) ms"
  shows "markApplied (parseAppliedMigrations output) ms =
           map (\<lambda>m. m\<lparr>status := (if agrees_with_applied (parseAppliedMigrations output) (name m)
                                   then Applied else Pending)\<rparr>) ms"
  using assms unfolding markApplied_def by (simp add: isApplied_iff list_all_iff)

theorem reconciler_marks_first_digit_run_witness:
  "list_all (\<lambda>m. status m = Pending)
     [\<lparr>name = js ''100-init.ts'', timestamp = 100, status = Pending,
        description = None, size_text = None, hash = None\<rparr>,
      \<lparr>name = js ''200-mid.ts'', timestamp = 200, status = Pending,
        description = None, size_text = None, hash = None\<rparr>]
   \<and> markApplied (parseAppliedMigrations (js ''[X] 1 Init100''))
       [\<lparr>name = js ''100-init.ts'', timestamp = 100, status = Pending,
          description = None, size_text = None, hash = None\<rparr>,
        \<lparr>name = js ''200-mid.ts'', timestamp = 200, status = Pending,
          description = None, size_text = None, hash = None\<rparr>]
     = [\<lparr>name = js ''100-init.ts'', timestamp = 100, status = Applied,
          description = None, size_text = None, hash = None\<rparr>,
        \<lparr>name = js ''200-mid.ts'', timestamp = 200, status = Pending,
          description = None, size_text = None, hash = None\<rparr>]"
  using reconciler_marks_first_digit_run [of
      "[\<lparr>name = js ''100-init.ts'', timestamp = 100, status = Pending,
          description = None, size_text = None, hash = None\<rparr>,
        \<lparr>name = js ''200-mid.ts'', timestamp = 200, status = Pending,
          description = None, size_text = None, hash = None\<rparr>]" "js ''[X] 1 Init100''"]
  by (simp add: eval_parse agrees_with_applied_def leading_digit_run_def first_digit_run_def)

text \<open>
  C1 as stated fails: the status output \<^verbatim>\<open>[X] 1 Init100\<close> has the single applied name
  \<^verbatim>\<open>Init100\<close>, which has no leading digit run, and the record of the file
  \<^verbatim>\<open>100-init.ts\<close>, whose leading digit run is \<^verbatim>\<open>100\<close>, is marked Applied all the same.
\<close>

theorem reconciler_leading_run_counterexample:
  "parseAppliedMigrations (js ''[X] 1 Init100'') = [js ''Init100'']
   \<and> leading_digit_run (js ''Init100'') = None
   \<and> leading_digit_run (js ''100-init.ts'') = Some (js ''100'')
   \<and> markApplied (parseAppliedMigrations (js ''[X] 1 Init100''))
       [\<lparr>name = js ''100-init.ts'', timestamp = 100, status = Pending,
          description = None, size_text = None, hash = None\<rparr>]
     = [\<lparr>name = js ''100-init.ts'', timestamp = 100, status = Applied,
          description = None, size_text = None, hash = None\<rparr>]"
  by (simp add: eval_parse leading_digit_run_def markApplied_def isApplied_def match_group1_def
      replace_first_def extension_rx_def leading_digits_rx_def digits_rx_def)

subsection \<open>The cache\<close>

lemma includes_str_sublist: "includes_str s pat \<longleftrightarrow> sublist pat s"
  by (induction s) (simp_all add: sublist_Cons_right)

lemma sublist_eval: "sublist pat s \<longleftrightarrow> includes_str s pat"
  by (simp add: includes_str_sublist)

lemma fold_delete_filter:
  "fold (\<lambda>key c'. if P key then AList.delete key c' else c') ks c =
     filter (\<lambda>(k, e). \<not> (k \<in> set ks \<and> P k)) c"
proof (induction ks arbitrary: c)
  case Nil
  show ?case by simp
next
  case (Cons key ks)
  show ?case
  proof (cases "P key")
    case True
    have "fold (\<lambda>key c'. if P key then AList.delete key c' else c') (key # ks) c =
          filter (\<lambda>(k, e). \<not> (k \<in> set ks \<and> P k)) (AList.delete key c)"
      using True Cons.IH by simp
    also have "\<dots> = filter (\<lambda>(k, e). \<not> (k \<in> set (key # ks) \<and> P k)) c"
      using True by (auto simp: AList.delete_eq intro!: filter_cong)
    finally show ?thesis .
  next
    case False
    have "fold (\<lambda>key c'. if P key then AList.delete key c' else c') (key # ks) c =
          filter (\<lambda>(k, e). \<not> (k \<in> set ks \<and> P k)) c"
      using False Cons.IH by simp
    also have "\<dots> = filter (\<lambda>(k, e). \<not> (k \<in> set (key # ks) \<and> P k)) c"
      using False by (auto intro!: filter_cong)
    finally show ?thesis .
  qed
qed

lemma invalidate_filter:
  "invalidate pat c = filter (\<lambda>(k, e). \<not> sublist pat k) c"
  unfolding invalidate_def fold_delete_filter
  by (rule filter_cong) (auto simp: includes_str_sublist rev_image_eqI)

lemma map_of_filter_keys:
  "map_of (filter (\<lambda>(k, e). Q k) c) k = (if Q k then map_of c k else None)"
  by (induction c) auto

lemma map_of_cache_set:
  "map_of (cache_set now k v ttl c) k =
     Some \<lparr>entry_data = v, entry_timestamp = now,
           entry_ttl = (case ttl of None \<Rightarrow> DEFAULT_TTL | Some t \<Rightarrow> t)\<rparr>"
  by (simp add: cache_set_def update_conv')

text \<open>
  C6. For every cache and every pattern, \<open>invalidate\<close> removes exactly the keys that contain
  the pattern as a substring: such a key is no longer mapped, every other key is mapped to
  the entry it had, and the entries that remain keep their order.
\<close>

theorem invalidate_removes_exactly_matching_keys:
  "map_of (invalidate pat c) k = (if sublist pat k then None else map_of c k)
   \<and> invalidate pat c = filter (\<lambda>(k, e). \<not> sublist pat k) c"
  by (simp add: invalidate_filter map_of_filter_keys)

theorem invalidate_removes_exactly_matching_keys_witness:
  "map_of (invalidate (js ''migrations'')
      [(js ''migrations'', \<lparr>entry_data = (1::nat), entry_timestamp = 0, entry_ttl = 60000\<rparr>),
       (js ''status'', \<lparr>entry_data = 2, entry_timestamp = 0, entry_ttl = 30000\<rparr>),
       (js ''db:migrations:x'', \<lparr>entry_data = 3, entry_timestamp = 5, entry_ttl = 30000\<rparr>)])
     (js ''db:migrations:x'') = None
   \<and> invalidate (js ''migrations'')
      [(js ''migrations'', \<lparr>entry_data = (1::nat), entry_timestamp = 0, entry_ttl = 60000\<rparr>),
       (js ''status'', \<lparr>entry_data = 2, entry_timestamp = 0, entry_ttl = 30000\<rparr>),
       (js ''db:migrations:x'', \<lparr>entry_data = 3, entry_timestamp = 5, entry_ttl = 30000\<rparr>)]
     = [(js ''status'', \<lparr>entry_data = 2, entry_timestamp = 0, entry_ttl = 30000\<rparr>)]"
  using invalidate_removes_exactly_matching_keys [of "js ''migrations''"
      "[(js ''migrations'', \<lparr>entry_data = (1::nat), entry_timestamp = 0, entry_ttl = 60000\<rparr>),
       (js ''status'', \<lparr>entry_data = 2, entry_timestamp = 0, entry_ttl = 30000\<rparr>),
       (js ''db:migrations:x'', \<lparr>entry_data = 3, entry_timestamp = 5, entry_ttl = 30000\<rparr>)]"
      "js ''db:migrations:x''"]
  by (simp add: sublist_eval js_def)

text \<open>
  C4. For every key, value and ttl \<open>t\<close> (a duration in milliseconds, so not negative): the
  \<open>get\<close> that follows the \<open>set\<close> at once, at the same clock reading, returns the value and
  leaves the cache as it is, as does every \<open>get\<close> at most \<open>t\<close> milliseconds after the \<open>set\<close>;
  a \<open>get\<close> more than \<open>t\<close> milliseconds after the \<open>set\<close> returns a miss and the key is no
  longer in the map.
\<close>

theorem cache_get_after_set:
  assumes "0 \<le> t"
  shows "cache_get now k (cache_set now k v (Some t) c) = (Some v, cache_set now k v (Some t) c)
   \<and> (now' - now \<le> t \<longrightarrow>
      cache_get now' k (cache_set now k v (Some t) c) = (Some v, cache_set now k v (Some t) c))
   \<and> (now' - now > t \<longrightarrow>
      cache_get now' k (cache_set now k v (Some t) c) =
        (None, AList.delete k (cache_set now k v (Some t) c))
      \<and> map_of (snd (cache_get now' k (cache_set now k v (Some t) c))) k = None
      \<and> k \<notin> fst ` set (snd (cache_get now' k (cache_set now k v (Some t) c))))"
  using assms by (auto simp: cache_get_def map_of_cache_set delete_conv' delete_notin_dom)

theorem cache_get_after_set_witness:
  "(0::int) \<le> 100
   \<and> cache_get 1000 (js ''k'') (cache_set 1000 (js ''k'') (7::nat) (Some 100) []) =
       (Some 7, [(js ''k'', \<lparr>entry_data = 7, entry_timestamp = 1000, entry_ttl = 100\<rparr>)])
   \<and> (1150::int) - 1000 > 100
   \<and> cache_get 1150 (js ''k'') (cache_set 1000 (js ''k'') (7::nat) (Some 100) []) = (None, [])"
proof -
  have h: "(0::int) \<le> 100" by simp
  from cache_get_after_set [OF h, of 1000 "js ''k''" "7::nat" "[]" 1150]
  show ?thesis by (simp add: cache_set_def)
qed

subsection \<open>The filtered view and the selection\<close>






lemma getFiltered_selectedIndex:
  "getFilteredMigrations lc (s\<lparr>selectedIndex := i\<rparr>) = getFilteredMigrations lc s"
  by (simp add: getFilteredMigrations_def Let_def)

lemma getFiltered_logBuffer:
  "getFilteredMigrations lc (s\<lparr>logBuffer := b\<rparr>) = getFilteredMigrations lc s"
  by (simp add: getFilteredMigrations_def Let_def)

lemma getFiltered_log_line:
  "getFilteredMigrations lc (log_line msg ty s) = getFilteredMigrations lc s"
  by (simp add: log_line_def Let_def getFiltered_logBuffer)

lemma getFiltered_updateMigrationsList:
  "getFilteredMigrations lc (updateMigrationsList lc s) = getFilteredMigrations lc s"
  by (simp add: updateMigrationsList_def Let_def getFiltered_selectedIndex)

lemmas view_frame = getFiltered_selectedIndex getFiltered_logBuffer getFiltered_log_line
  getFiltered_updateMigrationsList

lemma selectedIndex_log_line:
  "selectedIndex (log_line msg ty s) = selectedIndex s"
  by (simp add: log_line_def Let_def)

lemmas selection_frame = view_frame selectedIndex_log_line

lemma selectedIndex_updateMigrationsList:
  "selectedIndex (updateMigrationsList lc s) =
     clamp_selection (selectedIndex s) (length (getFilteredMigrations lc s))"
  by (simp add: updateMigrationsList_def clamp_selection_def Let_def)

text \<open>
  C7. After a filter cycle and after a search submit, the selection is the old selection
  clamped against the new filtered list: when it is not below the new length it becomes
  \<open>max 0 (length - 1)\<close>, otherwise it stays. So a selection of 4 with a new filtered list of
  length 2 becomes 1, and a selection that is not negative with an empty new filtered list
  becomes 0.
\<close>

theorem selection_clamped_on_filter_change:
  "selectedIndex (cycleFilter lc s) =
     clamp_selection (selectedIndex s) (length (getFilteredMigrations lc (cycleFilter lc s)))
   \<and> selectedIndex (searchBox_submit lc v s) =
     clamp_selection (selectedIndex s) (length (getFilteredMigrations lc (searchBox_submit lc v s)))
   \<and> (selectedIndex s = 4 \<and> length (getFilteredMigrations lc (cycleFilter lc s)) = 2
        \<longrightarrow> selectedIndex (cycleFilter lc s) = 1)
   \<and> (selectedIndex s = 4 \<and> length (getFilteredMigrations lc (searchBox_submit lc v s)) = 2
        \<longrightarrow> selectedIndex (searchBox_submit lc v s) = 1)
   \<and> (0 \<le> selectedIndex s \<and> getFilteredMigrations lc (cycleFilter lc s) = []
        \<longrightarrow> selectedIndex (cycleFilter lc s) = 0)
   \<and> (0 \<le> selectedIndex s \<and> getFilteredMigrations lc (searchBox_submit lc v s) = []
        \<longrightarrow> selectedIndex (searchBox_submit lc v s) = 0)"
  by (simp add: cycleFilter_def searchBox_submit_def applyFilters_def Let_def
      selectedIndex_updateMigrationsList clamp_selection_def selection_frame)

lemmas eval_view = cycleFilter_def searchBox_submit_def applyFilters_def updateMigrationsList_def
  getFilteredMigrations_def log_line_def Let_def sample_shell_def new_shell_def
  sample_inventory_def ascii_lower_def js_def

theorem selection_clamped_on_filter_change_witness:
  "selectedIndex (sample_shell\<lparr>migrations := sample_inventory, selectedIndex := 4\<rparr>) = 4
   \<and> length (getFilteredMigrations ascii_lower
        (sample_shell\<lparr>migrations := sample_inventory, selectedIndex := 4\<rparr>)) = 5
   \<and> length (getFilteredMigrations ascii_lower
        (cycleFilter ascii_lower
           (sample_shell\<lparr>migrations := sample_inventory, selectedIndex := 4\<rparr>))) = 2
   \<and> selectedIndex (cycleFilter ascii_lower
        (sample_shell\<lparr>migrations := sample_inventory, selectedIndex := 4\<rparr>)) = 1
   \<and> getFilteredMigrations ascii_lower
        (searchBox_submit ascii_lower (js ''zzz'')
           (sample_shell\<lparr>migrations := sample_inventory, selectedIndex := 4\<rparr>)) = []
   \<and> selectedIndex (searchBox_submit ascii_lower (js ''zzz'')
        (sample_shell\<lparr>migrations := sample_inventory, selectedIndex := 4\<rparr>)) = 0"
proof -
  have a: "selectedIndex (sample_shell\<lparr>migrations := sample_inventory, selectedIndex := 4\<rparr>) = 4"
    by simp
  have b: "length (getFilteredMigrations ascii_lower
        (sample_shell\<lparr>migrations := sample_inventory, selectedIndex := 4\<rparr>)) = 5"
    by (simp add: eval_view)
  have c: "length (getFilteredMigrations ascii_lower
        (cycleFilter ascii_lower
           (sample_shell\<lparr>migrations := sample_inventory, selectedIndex := 4\<rparr>))) = 2"
    by (simp add: eval_view)
  have d: "getFilteredMigrations ascii_lower
        (searchBox_submit ascii_lower (js ''zzz'')
           (sample_shell\<lparr>migrations := sample_inventory, selectedIndex := 4\<rparr>)) = []"
    by (simp add: eval_view)
  from selection_clamped_on_filter_change [of ascii_lower
      "sample_shell\<lparr>migrations := sample_inventory, selectedIndex := 4\<rparr>" "js ''zzz''"]
    a b c d
  show ?thesis by simp
qed

subsection \<open>Loading\<close>

lemma scanFiles_pending:
  "scanFiles rd fs = (Inr ms, io) \<Longrightarrow> list_all (\<lambda>m. status m = Pending) ms"
proof (induction fs arbitrary: ms io)
  case Nil
  then show ?case by simp
next
  case (Cons f fs)
  then show ?case
    by (auto simp: newMigration_def split: sum.splits prod.splits)
qed

lemma scanDirectory_pending:
  "scanDirectory env dir = (Inr ms, io) \<Longrightarrow> list_all (\<lambda>m. status m = Pending) ms"
  by (auto simp: scanDirectory_def split: option.splits sum.splits prod.splits
      dest: scanFiles_pending)

lemma list_all_sort_key:
  "list_all P (sort_key f xs) = list_all P xs"
  by (simp add: list_all_iff)

lemma logBuffer_updateMigrationsList:
  "logBuffer (updateMigrationsList lc s) = logBuffer s"
  by (simp add: updateMigrationsList_def Let_def)

lemma log_line_last:
  "\<exists>pre. logBuffer (log_line msg ty s) = pre @ [(ty, msg)]"
proof -
  have "drop (length (logBuffer s) + 1 - MAX_LOG_ENTRIES) (logBuffer s @ [(ty, msg)]) =
        drop (length (logBuffer s) + 1 - MAX_LOG_ENTRIES) (logBuffer s) @ [(ty, msg)]"
    by (simp add: MAX_LOG_ENTRIES_def)
  then show ?thesis
    by (auto simp: log_line_def Let_def)
qed

lemma log_line_last_two:
  assumes "logBuffer s = pre @ [e]"
  shows "\<exists>pre'. logBuffer (log_line msg ty s) = pre' @ [e, (ty, msg)]"
proof -
  have "drop (length pre + 2 - MAX_LOG_ENTRIES) (pre @ [e, (ty, msg)]) =
        drop (length pre + 2 - MAX_LOG_ENTRIES) pre @ [e, (ty, msg)]"
    by (simp add: MAX_LOG_ENTRIES_def)
  with assms show ?thesis
    by (auto simp: log_line_def Let_def)
qed

lemma log_line_fields:
  "migrations (log_line msg ty s) = migrations s"
  "dbInfo (log_line msg ty s) = dbInfo s"
  "cache (log_line msg ty s) = cache s"
  "isLoading (log_line msg ty s) = isLoading s"
  "migrationsDir (log_line msg ty s) = migrationsDir s"
  "commands (log_line msg ty s) = commands s"
  by (simp_all add: log_line_def Let_def)

lemma updateMigrationsList_fields:
  "migrations (updateMigrationsList lc s) = migrations s"
  "dbInfo (updateMigrationsList lc s) = dbInfo s"
  "cache (updateMigrationsList lc s) = cache s"
  "isLoading (updateMigrationsList lc s) = isLoading s"
  by (simp_all add: updateMigrationsList_def Let_def)

lemmas state_frame = logBuffer_updateMigrationsList log_line_fields updateMigrationsList_fields

text \<open>The state after a load whose scan succeeds and whose status command fails.\<close>

lemma load_status_failure:
  assumes "\<not> isLoading s"
    and "cache_get (now_lookup env) (js ''migrations'') (cache s) = (None, c')"
    and "scanDirectory env (migrationsDir s) = (Inr scanned, io)"
    and "execShowStatus env = Inl e"
  shows "loadMigrations lc env s =
    ((log_line (js ''Loaded '' @ toString_nat (length scanned) @ js '' migrations'') Success
       (updateMigrationsList lc
         ((log_line (js ''Could not fetch migration status: '' @ errorMessage e) Warning
            (log_line (js ''Loading migrations...'') Info (s\<lparr>cache := c', isLoading := True\<rparr>)
               \<lparr>dbInfo := (dbInfo s)\<lparr>connected := False\<rparr>\<rparr>))
          \<lparr>migrations := sort_key timestamp scanned,
           dbInfo := (dbInfo s)\<lparr>connected := False, migrationsCount := length scanned,
              pendingCount := length (filter (\<lambda>m. status m = Pending) (sort_key timestamp scanned)),
              lastCheck := now_check env\<rparr>,
           cache := cache_set (now_store env) (js ''migrations'') (sort_key timestamp scanned)
                      (Some 60000) c'\<rparr>)))
      \<lparr>isLoading := False\<rparr>,
     io @ [ExecSync (showStatus (commands s))])"
  using assms by (simp add: loadMigrations_def Let_def state_frame)


text \<open>
  C8. When a load that is not already in flight misses the cache, scans the directory
  without error and then finds the status command failing (it throws: non-zero exit,
  timeout or spawn error), the load still completes: the inventory is the scanned list in
  timestamp order with every record Pending, it is stored in the cache, the counts are
  set with every record pending, \<open>connected\<close> is false, the failure is logged as a warning
  just before the closing success message, and \<open>isLoading\<close> is false again.
\<close>

theorem status_failure_is_not_fatal:
  assumes "\<not> isLoading s"
    and "fst (cache_get (now_lookup env) (js ''migrations'') (cache s)) = None"
    and "scanDirectory env (migrationsDir s) = (Inr scanned, io)"
    and "execShowStatus env = Inl e"
  shows "migrations (fst (loadMigrations lc env s)) = sort_key timestamp scanned
    \<and> list_all (\<lambda>m. status m = Pending) (migrations (fst (loadMigrations lc env s)))
    \<and> \<not> connected (dbInfo (fst (loadMigrations lc env s)))
    \<and> (\<exists>pre. logBuffer (fst (loadMigrations lc env s)) =
          pre @ [(Warning, js ''Could not fetch migration status: '' @ errorMessage e),
                 (Success, js ''Loaded '' @ toString_nat (length scanned) @ js '' migrations'')])
    \<and> \<not> isLoading (fst (loadMigrations lc env s))
    \<and> migrationsCount (dbInfo (fst (loadMigrations lc env s))) = length scanned
    \<and> pendingCount (dbInfo (fst (loadMigrations lc env s))) = length scanned
    \<and> map_of (cache (fst (loadMigrations lc env s))) (js ''migrations'') =
        Some \<lparr>entry_data = sort_key timestamp scanned, entry_timestamp = now_store env,
              entry_ttl = 60000\<rparr>"
proof -
  obtain c' where c': "cache_get (now_lookup env) (js ''migrations'') (cache s) = (None, c')"
    using assms(2) by (cases "cache_get (now_lookup env) (js ''migrations'') (cache s)") simp
  note ld = load_status_failure [OF assms(1) c' assms(3) assms(4), of lc]
  have pend: "list_all (\<lambda>m. status m = Pending) (sort_key timestamp scanned)"
    using scanDirectory_pending [OF assms(3)] by (simp add: list_all_sort_key)
  then have cnt: "length (filter (\<lambda>m. status m = Pending) (sort_key timestamp scanned)) = length scanned"
    by (simp add: list_all_iff)
  obtain p1 where p1: "logBuffer (log_line (js ''Could not fetch migration status: '' @ errorMessage e) Warning
            (log_line (js ''Loading migrations...'') Info (s\<lparr>cache := c', isLoading := True\<rparr>)
               \<lparr>dbInfo := (dbInfo s)\<lparr>connected := False\<rparr>\<rparr>)) =
        p1 @ [(Warning, js ''Could not fetch migration status: '' @ errorMessage e)]"
    using log_line_last by blast
  have m: "migrations (fst (loadMigrations lc env s)) = sort_key timestamp scanned"
    by (simp add: ld state_frame)
  have co: "\<not> connected (dbInfo (fst (loadMigrations lc env s)))"
    by (simp add: ld state_frame)
  have il: "\<not> isLoading (fst (loadMigrations lc env s))"
    by (simp add: ld state_frame)
  have mc: "migrationsCount (dbInfo (fst (loadMigrations lc env s))) = length scanned"
    by (simp add: ld state_frame)
  have pc: "pendingCount (dbInfo (fst (loadMigrations lc env s))) = length scanned"
    by (simp add: ld cnt state_frame)
  have ca: "map_of (cache (fst (loadMigrations lc env s))) (js ''migrations'') =
        Some \<lparr>entry_data = sort_key timestamp scanned, entry_timestamp = now_store env,
              entry_ttl = 60000\<rparr>"
    by (simp add: ld map_of_cache_set state_frame)
  have b2: "logBuffer (updateMigrationsList lc
         ((log_line (js ''Could not fetch migration status: '' @ errorMessage e) Warning
            (log_line (js ''Loading migrations...'') Info (s\<lparr>cache := c', isLoading := True\<rparr>)
               \<lparr>dbInfo := (dbInfo s)\<lparr>connected := False\<rparr>\<rparr>))
          \<lparr>migrations := sort_key timestamp scanned,
           dbInfo := (dbInfo s)\<lparr>connected := False, migrationsCount := length scanned,
              pendingCount := length (filter (\<lambda>m. status m = Pending) (sort_key timestamp scanned)),
              lastCheck := now_check env\<rparr>,
           cache := cache_set (now_store env) (js ''migrations'') (sort_key timestamp scanned)
                      (Some 60000) c'\<rparr>)) =
        p1 @ [(Warning, js ''Could not fetch migration status: '' @ errorMessage e)]"
    using p1 by (simp add: state_frame)
  have lb: "logBuffer (fst (loadMigrations lc env s)) =
      logBuffer (log_line (js ''Loaded '' @ toString_nat (length scanned) @ js '' migrations'') Success
       (updateMigrationsList lc
         ((log_line (js ''Could not fetch migration status: '' @ errorMessage e) Warning
            (log_line (js ''Loading migrations...'') Info (s\<lparr>cache := c', isLoading := True\<rparr>)
               \<lparr>dbInfo := (dbInfo s)\<lparr>connected := False\<rparr>\<rparr>))
          \<lparr>migrations := sort_key timestamp scanned,
           dbInfo := (dbInfo s)\<lparr>connected := False, migrationsCount := length scanned,
              pendingCount := length (filter (\<lambda>m. status m = Pending) (sort_key timestamp scanned)),
              lastCheck := now_check env\<rparr>,
           cache := cache_set (now_store env) (js ''migrations'') (sort_key timestamp scanned)
                      (Some 60000) c'\<rparr>)))"
    by (simp add: ld state_frame)
  have lg: "\<exists>pre. logBuffer (fst (loadMigrations lc env s)) =
          pre @ [(Warning, js ''Could not fetch migration status: '' @ errorMessage e),
                 (Success, js ''Loaded '' @ toString_nat (length scanned) @ js '' migrations'')]"
    unfolding lb by (rule log_line_last_two [OF b2])
  from pend m have pe: "list_all (\<lambda>m. status m = Pending) (migrations (fst (loadMigrations lc env s)))"
    by simp
  from m pe co lg il mc pc ca show ?thesis by (intro conjI)
qed


lemmas eval_scan = scanDirectory_def sample_env_def sample_facts_def isMigrationFile_def
  endsWith_def suffix_to_prefix newMigration_def match_group1_def leading_digits_rx_def
  parseInt_def to_double_def eval_strings

lemmas eval_shell = sample_shell_def new_shell_def no_config_def or_default_def
  command_property_def

lemma sample_scan:
  "scanDirectory (sample_env [js ''200-b.ts'', js ''100-a.js'', js ''README.md''] st)
     (migrationsDir sample_shell) =
   (Inr [\<lparr>name = js ''200-b.ts'', timestamp = 200, status = Pending,
           description = Some (js ''Migration''), size_text = Some (js ''1 KB''),
           hash = Some (js ''1a2b'')\<rparr>,
         \<lparr>name = js ''100-a.js'', timestamp = 100, status = Pending,
           description = Some (js ''Migration''), size_text = Some (js ''1 KB''),
           hash = Some (js ''1a2b'')\<rparr>],
    [EnsureDir (js ''/app/migrations''), Readdir (js ''/app/migrations''),
     StatAndRead (js ''200-b.ts''), StatAndRead (js ''100-a.js'')])"
  by (simp add: eval_scan eval_shell)

theorem status_failure_is_not_fatal_witness:
  "map (\<lambda>m. (name m, status m))
     (migrations (fst (loadMigrations ascii_lower
        (sample_env [js ''200-b.ts'', js ''100-a.js'', js ''README.md'']
           (Inl (ErrorObj (js ''Command failed''))))
        sample_shell)))
     = [(js ''100-a.js'', Pending), (js ''200-b.ts'', Pending)]
   \<and> \<not> connected (dbInfo (fst (loadMigrations ascii_lower
        (sample_env [js ''200-b.ts'', js ''100-a.js'', js ''README.md'']
           (Inl (ErrorObj (js ''Command failed''))))
        sample_shell)))
   \<and> \<not> isLoading (fst (loadMigrations ascii_lower
        (sample_env [js ''200-b.ts'', js ''100-a.js'', js ''README.md'']
           (Inl (ErrorObj (js ''Command failed''))))
        sample_shell))"
proof -
  have h1: "\<not> isLoading sample_shell"
    by (simp add: eval_shell)
  have h2: "fst (cache_get (now_lookup (sample_env [js ''200-b.ts'', js ''100-a.js'', js ''README.md'']
           (Inl (ErrorObj (js ''Command failed''))))) (js ''migrations'') (cache sample_shell)) = None"
    by (simp add: eval_shell cache_get_def)
  have h4: "execShowStatus (sample_env [js ''200-b.ts'', js ''100-a.js'', js ''README.md'']
           (Inl (ErrorObj (js ''Command failed'')))) = Inl (ErrorObj (js ''Command failed''))"
    by (simp add: sample_env_def)
  from status_failure_is_not_fatal [OF h1 h2 sample_scan h4, of ascii_lower]
  show ?thesis by simp
qed


text \<open>A load that starts with no load in flight ends with no load in flight.\<close>

lemma load_ends_idle:
  assumes "\<not> isLoading s"
  shows "\<not> isLoading (fst (loadMigrations lc env s))"
proof -
  obtain r c' where g: "cache_get (now_lookup env) (js ''migrations'') (cache s) = (r, c')"
    by (cases "cache_get (now_lookup env) (js ''migrations'') (cache s)")
  obtain res io where sc: "scanDirectory env (migrationsDir s) = (res, io)"
    by (cases "scanDirectory env (migrationsDir s)")
  show ?thesis
    using assms g sc
    by (cases r; cases res; cases "execShowStatus env")
       (simp_all add: loadMigrations_def Let_def state_frame)
qed

text \<open>
  C10. The guard on \<open>isLoading\<close> stands before the cache lookup, and \<open>isLoading\<close> is false
  whenever a load can find an entry: it is set only after the lookup has missed, and the
  load that set it stores its entry and clears it without a pause in between. With
  \<open>isLoading\<close> false, if the cache holds an unexpired entry under the key
  \<^verbatim>\<open>migrations\<close>, then \<open>loadMigrations\<close> installs the cached list as the inventory, clamps
  the selection against it, makes no call to the file system or to the status command, and
  leaves the connection summary and the cache as they were.
\<close>

theorem cached_load_installs_and_leaves_summary:
  assumes "\<not> isLoading s"
    and "map_of (cache s) (js ''migrations'') = Some entry"
    and "now_lookup env - entry_timestamp entry \<le> entry_ttl entry"
  shows "loadMigrations lc env s =
           (updateMigrationsList lc (s\<lparr>migrations := entry_data entry\<rparr>), [])
    \<and> migrations (fst (loadMigrations lc env s)) = entry_data entry
    \<and> snd (loadMigrations lc env s) = []
    \<and> dbInfo (fst (loadMigrations lc env s)) = dbInfo s
    \<and> cache (fst (loadMigrations lc env s)) = cache s"
  using assms by (simp add: loadMigrations_def cache_get_def state_frame)

theorem cached_load_installs_and_leaves_summary_witness:
  "loadMigrations ascii_lower (sample_env [js ''900-z.ts''] (Inr []))
     (sample_shell\<lparr>cache := [(js ''migrations'',
        \<lparr>entry_data = sample_inventory, entry_timestamp = 500, entry_ttl = 60000\<rparr>)]\<rparr>)
   = (sample_shell\<lparr>cache := [(js ''migrations'',
        \<lparr>entry_data = sample_inventory, entry_timestamp = 500, entry_ttl = 60000\<rparr>)],
        migrations := sample_inventory\<rparr>, [])"
proof -
  have h1: "\<not> isLoading (sample_shell\<lparr>cache := [(js ''migrations'',
        \<lparr>entry_data = sample_inventory, entry_timestamp = 500, entry_ttl = 60000\<rparr>)]\<rparr>)"
    by (simp add: eval_shell)
  have h2: "map_of (cache (sample_shell\<lparr>cache := [(js ''migrations'',
        \<lparr>entry_data = sample_inventory, entry_timestamp = 500, entry_ttl = 60000\<rparr>)]\<rparr>))
      (js ''migrations'') =
      Some \<lparr>entry_data = sample_inventory, entry_timestamp = 500, entry_ttl = 60000\<rparr>"
    by simp
  have h3: "now_lookup (sample_env [js ''900-z.ts''] (Inr [])) -
      entry_timestamp \<lparr>entry_data = sample_inventory, entry_timestamp = 500, entry_ttl = 60000\<rparr>
      \<le> entry_ttl \<lparr>entry_data = sample_inventory, entry_timestamp = 500, entry_ttl = 60000\<rparr>"
    by (simp add: sample_env_def)
  from cached_load_installs_and_leaves_summary [OF h1 h2 h3, of ascii_lower]
  show ?thesis
    by (simp add: updateMigrationsList_def getFilteredMigrations_def Let_def eval_shell
        sample_inventory_def)
qed

subsection \<open>The order of the inventory\<close>

lemma markApplied_timestamps:
  "map timestamp (markApplied toks ms) = map timestamp ms"
  by (simp add: markApplied_def)

lemma list_all_update:
  "list_all P al \<Longrightarrow> P (k, v) \<Longrightarrow> list_all P (AList.update k v al)"
  by (induction al) auto

lemma list_all_delete:
  "list_all P al \<Longrightarrow> list_all P (AList.delete k al)"
  by (simp add: AList.delete_eq list_all_iff)

lemma list_all_map_of:
  "list_all (\<lambda>(k, e). P e) al \<Longrightarrow> map_of al k = Some e \<Longrightarrow> P e"
  by (auto simp: list_all_iff dest: map_of_SomeD)

lemma cache_get_sorted:
  assumes "list_all (\<lambda>(k, e). sorted (map timestamp (entry_data e))) c"
    and "cache_get now key c = (r, c')"
  shows "list_all (\<lambda>(k, e). sorted (map timestamp (entry_data e))) c'
         \<and> (\<forall>ms. r = Some ms \<longrightarrow> sorted (map timestamp ms))"
  using assms
  by (auto simp: cache_get_def list_all_delete split: option.splits if_splits
      dest: list_all_map_of)

lemma inventory_sorted_log_line:
  "inventory_sorted (log_line msg ty s) = inventory_sorted s"
  by (simp add: inventory_sorted_def state_frame)

lemma inventory_sorted_updateMigrationsList:
  "inventory_sorted (updateMigrationsList lc s) = inventory_sorted s"
  by (simp add: inventory_sorted_def state_frame)

lemma inventory_sorted_isLoading:
  "inventory_sorted (s\<lparr>isLoading := b\<rparr>) = inventory_sorted s"
  by (simp add: inventory_sorted_def)

lemma inventory_sorted_dbInfo:
  "inventory_sorted (s\<lparr>dbInfo := d\<rparr>) = inventory_sorted s"
  by (simp add: inventory_sorted_def)

lemmas sorted_frame = markApplied_timestamps inventory_sorted_log_line
  inventory_sorted_updateMigrationsList inventory_sorted_isLoading inventory_sorted_dbInfo

lemma load_preserves_sorted:
  assumes inv: "inventory_sorted s"
  shows "inventory_sorted (fst (loadMigrations lc env s))"
proof (cases "isLoading s")
  case True
  with inv show ?thesis by (simp add: loadMigrations_def)
next
  case False
  obtain r c' where g: "cache_get (now_lookup env) (js ''migrations'') (cache s) = (r, c')"
    by (cases "cache_get (now_lookup env) (js ''migrations'') (cache s)")
  from inv have "list_all (\<lambda>(k, e). sorted (map timestamp (entry_data e))) (cache s)"
    by (simp add: inventory_sorted_def)
  from cache_get_sorted [OF this g]
  have c': "list_all (\<lambda>(k, e). sorted (map timestamp (entry_data e))) c'"
    and r: "\<And>ms. r = Some ms \<Longrightarrow> sorted (map timestamp ms)" by auto
  show ?thesis
  proof (cases r)
    case (Some cached)
    with False g c' r [OF Some] show ?thesis
      by (simp add: loadMigrations_def inventory_sorted_def state_frame)
  next
    case None
    obtain res io where sc: "scanDirectory env (migrationsDir s) = (res, io)"
      by (cases "scanDirectory env (migrationsDir s)")
    have old: "inventory_sorted (s\<lparr>cache := c'\<rparr>)"
      using inv c' by (simp add: inventory_sorted_def)
    show ?thesis
    proof (cases res)
      case (Inl e)
      with False g None sc old show ?thesis
        by (simp add: loadMigrations_def Let_def inventory_sorted_def state_frame)
    next
      case (Inr scanned)
      show ?thesis
      proof (cases "execShowStatus env")
        case (Inl e)
        with False g None sc Inr c' show ?thesis
          by (simp add: loadMigrations_def Let_def inventory_sorted_def cache_set_def
              list_all_update state_frame markApplied_timestamps)
      next
        case st: (Inr out)
        with False g None sc Inr c' show ?thesis
          by (simp add: loadMigrations_def Let_def inventory_sorted_def cache_set_def
              list_all_update state_frame markApplied_timestamps)
      qed
    qed
  qed
qed


lemma scanned_load_sorted:
  assumes "\<not> isLoading s"
    and "fst (cache_get (now_lookup env) (js ''migrations'') (cache s)) = None"
    and "fst (scanDirectory env (migrationsDir s)) = Inr scanned"
  shows "sorted (map timestamp (migrations (fst (loadMigrations lc env s))))"
proof -
  obtain c' where g: "cache_get (now_lookup env) (js ''migrations'') (cache s) = (None, c')"
    using assms(2) by (cases "cache_get (now_lookup env) (js ''migrations'') (cache s)") simp
  obtain io where sc: "scanDirectory env (migrationsDir s) = (Inr scanned, io)"
    using assms(3) by (cases "scanDirectory env (migrationsDir s)") simp
  show ?thesis
  proof (cases "execShowStatus env")
    case (Inl e)
    with assms(1) g sc show ?thesis
      by (simp add: loadMigrations_def Let_def state_frame markApplied_timestamps)
  next
    case (Inr out)
    with assms(1) g sc show ?thesis
      by (simp add: loadMigrations_def Let_def state_frame markApplied_timestamps)
  qed
qed

lemma new_shell_sorted: "inventory_sorted (new_shell d cfg)"
  by (simp add: inventory_sorted_def new_shell_def)

lemma view_changes_sorted:
  "inventory_sorted (cycleFilter lc s) = inventory_sorted s"
  "inventory_sorted (searchBox_submit lc v s) = inventory_sorted s"
  by (simp_all add: cycleFilter_def searchBox_submit_def applyFilters_def Let_def
      inventory_sorted_def state_frame)

lemma cache_removals_sorted:
  "inventory_sorted s \<Longrightarrow> inventory_sorted (s\<lparr>cache := invalidate pat (cache s)\<rparr>)"
  "inventory_sorted s \<Longrightarrow> inventory_sorted (s\<lparr>cache := cache_clear (cache s)\<rparr>)"
  by (simp_all add: inventory_sorted_def invalidate_filter cache_clear_def list_all_iff)

text \<open>
  C3 (as amended). After every load the inventory is in ascending order of timestamp, equal
  timestamps allowed: the order holds in the state the constructor builds, every load keeps
  it (as do the filter cycle, the search submit and the removals from the cache), and a
  load that scans the directory produces it whatever the state before.
\<close>

theorem inventory_ascending_after_load:
  "inventory_sorted (new_shell d cfg)
   \<and> (inventory_sorted s \<longrightarrow>
        inventory_sorted (fst (loadMigrations lc env s))
        \<and> sorted (map timestamp (migrations (fst (loadMigrations lc env s))))
        \<and> inventory_sorted (cycleFilter lc s)
        \<and> inventory_sorted (searchBox_submit lc v s)
        \<and> inventory_sorted (s\<lparr>cache := invalidate pat (cache s)\<rparr>)
        \<and> inventory_sorted (s\<lparr>cache := cache_clear (cache s)\<rparr>))
   \<and> (\<not> isLoading s
        \<and> fst (cache_get (now_lookup env) (js ''migrations'') (cache s)) = None
        \<and> fst (scanDirectory env (migrationsDir s)) = Inr scanned \<longrightarrow>
        sorted (map timestamp (migrations (fst (loadMigrations lc env s)))))"
proof -
  have a: "inventory_sorted s \<Longrightarrow> sorted (map timestamp (migrations (fst (loadMigrations lc env s))))"
    using load_preserves_sorted [of s lc env] by (simp add: inventory_sorted_def)
  show ?thesis
    using a new_shell_sorted load_preserves_sorted scanned_load_sorted
      view_changes_sorted cache_removals_sorted
    by blast
qed

lemmas eval_load = loadMigrations_def cache_get_def cache_set_def Let_def
  updateMigrationsList_def getFilteredMigrations_def log_line_def MAX_LOG_ENTRIES_def
  markApplied_def isApplied_def replace_first_def extension_rx_def digits_rx_def

lemma sample_load_unsorted_dir:
  "map (\<lambda>m. (name m, timestamp m))
     (migrations (fst (loadMigrations ascii_lower
        (sample_env [js ''300-c.ts'', js ''100-a.ts'', js ''200-b.ts''] (Inr [])) sample_shell)))
   = [(js ''100-a.ts'', 100), (js ''200-b.ts'', 200), (js ''300-c.ts'', 300)]"
  by (simp add: eval_load eval_scan eval_shell applied_rx_def ansi_rx_def
      parseAppliedMigrations_def)

theorem inventory_ascending_after_load_witness:
  "inventory_sorted sample_shell
   \<and> inventory_sorted (fst (loadMigrations ascii_lower
        (sample_env [js ''300-c.ts'', js ''100-a.ts'', js ''200-b.ts''] (Inr [])) sample_shell))
   \<and> map (\<lambda>m. (name m, timestamp m))
     (migrations (fst (loadMigrations ascii_lower
        (sample_env [js ''300-c.ts'', js ''100-a.ts'', js ''200-b.ts''] (Inr [])) sample_shell)))
     = [(js ''100-a.ts'', 100), (js ''200-b.ts'', 200), (js ''300-c.ts'', 300)]"
  using inventory_ascending_after_load [of "js ''/app/migrations''" no_config sample_shell
      ascii_lower "sample_env [js ''300-c.ts'', js ''100-a.ts'', js ''200-b.ts''] (Inr [])"]
    sample_load_unsorted_dir
  by (simp add: sample_shell_def)

text \<open>
  C3 as stated fails: two files whose names start with the same digit run get the same
  timestamp, so the loaded inventory is not strictly ascending.
\<close>

theorem inventory_strict_order_counterexample:
  "map timestamp
     (migrations (fst (loadMigrations ascii_lower
        (sample_env [js ''100-a.ts'', js ''100-b.ts''] (Inr [])) sample_shell)))
   = [100, 100]
   \<and> \<not> sorted_wrt (<) [100::rat, 100]"
  by (simp add: eval_load eval_scan eval_shell applied_rx_def ansi_rx_def
      parseAppliedMigrations_def)


subsection \<open>The parser on a well-formed status report\<close>

lemma run_seq_head:
  "run x st = a # as \<Longrightarrow> run y a = b # bs \<Longrightarrow> \<exists>rest. run (Seq x y) st = b # rest"
  by simp

lemma takeWhile_prefix_run:
  "list_all P xs \<Longrightarrow> ys = [] \<or> \<not> P (hd ys) \<Longrightarrow> takeWhile P (xs @ ys) = xs"
  by (induction xs) (auto simp: takeWhile_eq_Nil_iff neq_Nil_conv)

lemma dropWhile_prefix_run:
  "list_all P xs \<Longrightarrow> ys = [] \<or> \<not> P (hd ys) \<Longrightarrow> dropWhile P (xs @ ys) = ys"
  by (induction xs) (auto simp: dropWhile_eq_self_iff neq_Nil_conv)

lemma run_star_all:
  assumes "r = xs @ ys" and "b' = b @ xs"
    and "list_all (in_class c) xs" and "ys = [] \<or> \<not> in_class c (hd ys)"
  shows "\<exists>rest. run (Star c) (b, r, g) = (b', ys, g) # rest"
proof -
  obtain rest where "greedy (in_class c) b (xs @ ys) =
      (b @ takeWhile (in_class c) (xs @ ys), dropWhile (in_class c) (xs @ ys)) # rest"
    using greedy_head by blast
  then show ?thesis
    using assms(1,2)
    by (simp add: takeWhile_prefix_run [OF assms(3,4)] dropWhile_prefix_run [OF assms(3,4)])
qed

lemma run_plus_all:
  assumes "r = xs @ ys" and "b' = b @ xs"
    and "xs \<noteq> []" and "list_all (in_class c) xs" and "ys = [] \<or> \<not> in_class c (hd ys)"
  shows "\<exists>rest. run (Plus c) (b, r, g) = (b', ys, g) # rest"
proof -
  obtain x xs' where xs: "xs = x # xs'" using assms(3) by (cases xs) auto
  with assms(4) have x: "in_class c x" and rest: "list_all (in_class c) xs'" by simp_all
  obtain rest where "greedy (in_class c) (b @ [x]) (xs' @ ys) =
      ((b @ [x]) @ takeWhile (in_class c) (xs' @ ys), dropWhile (in_class c) (xs' @ ys)) # rest"
    using greedy_head by blast
  then show ?thesis
    using x xs assms(1,2)
    by (simp add: takeWhile_prefix_run [OF rest assms(5)] dropWhile_prefix_run [OF rest assms(5)])
qed

lemma run_group_all:
  assumes "run x (b, r, g) = (b', r', g') # rest" and "cap = drop (length b) b'"
  shows "\<exists>rest'. run (Group x) (b, r, g) = (b', r', Some cap) # rest'"
  using assms by simp

lemma digit_not_space: "isDigit c \<Longrightarrow> \<not> isSpace c"
  by (auto simp: isDigit_def isSpace_def)

lemma blank_facts: "isBlank c \<Longrightarrow> isSpace c" "isBlank c \<Longrightarrow> \<not> isDigit c" "isBlank c \<Longrightarrow> c \<noteq> 10"
  by (auto simp: isBlank_def dest: digit_not_space)

lemma run_marker_head:
  assumes "marker = js ''[X]'' \<or> marker = checkmark"
  shows "\<exists>rest. run (Alt (Lit (js ''[X]'')) (Lit checkmark)) (b, marker @ r, None) =
           (b @ marker, r, None) # rest"
  using assms by (auto simp: js_def checkmark_def)

text \<open>The match of the applied expression where a marker stands.\<close>

lemma run_applied_line:
  assumes m: "marker = js ''[X]'' \<or> marker = checkmark"
    and g1: "list_all isBlank gap"
    and o: "ordinal \<noteq> []" "list_all isDigit ordinal"
    and g2: "list_all isBlank gap'" "gap' \<noteq> [] \<or> \<not> starts_with_digit raw"
    and n: "raw \<noteq> []" "list_all (\<lambda>c. \<not> isSpace c) raw"
    and t: "trailer = [] \<or> isBlank (hd trailer)"
  shows "\<exists>rest. run applied_rx (b, marker @ gap @ ordinal @ gap' @ raw @ trailer, None) =
           (b @ marker @ gap @ ordinal @ gap' @ raw, trailer, Some raw) # rest"
proof -
  have od: "\<not> isSpace (hd ordinal)"
    using o by (cases ordinal) (simp_all add: digit_not_space)
  have gh: "\<not> isDigit (hd (gap' @ raw @ trailer))"
    using g2 n(1) by (cases gap'; cases raw) (auto simp: blank_facts starts_with_digit_def)
  have nh: "\<not> isSpace (hd raw)"
    using n by (cases raw) simp_all
  have sp1: "list_all (in_class Space) gap" and sp2: "list_all (in_class Space) gap'"
    using g1 g2 by (simp_all add: list_all_iff blank_facts)
  have th: "trailer = [] \<or> \<not> in_class NonSpace (hd trailer)"
    using t by (auto simp: blank_facts)
  obtain r1 where e1: "run (Alt (Lit (js ''[X]'')) (Lit checkmark))
      (b, marker @ gap @ ordinal @ gap' @ raw @ trailer, None) =
      (b @ marker, gap @ ordinal @ gap' @ raw @ trailer, None) # r1"
    using run_marker_head [OF m] by blast
  have "\<exists>rest. run (Star Space) (b @ marker, gap @ ordinal @ gap' @ raw @ trailer, None) =
      (b @ marker @ gap, ordinal @ gap' @ raw @ trailer, None) # rest"
    by (rule run_star_all [where xs = gap]) (use od o sp1 in simp_all)
  then obtain r2 where e2: "run (Star Space) (b @ marker, gap @ ordinal @ gap' @ raw @ trailer, None) =
      (b @ marker @ gap, ordinal @ gap' @ raw @ trailer, None) # r2" by blast
  have "\<exists>rest. run (Plus Digit) (b @ marker @ gap, ordinal @ gap' @ raw @ trailer, None) =
      (b @ marker @ gap @ ordinal, gap' @ raw @ trailer, None) # rest"
    by (rule run_plus_all [where xs = ordinal]) (use o gh in \<open>simp_all add: list_all_iff\<close>)
  then obtain r3 where e3: "run (Plus Digit) (b @ marker @ gap, ordinal @ gap' @ raw @ trailer, None) =
      (b @ marker @ gap @ ordinal, gap' @ raw @ trailer, None) # r3" by blast
  have "\<exists>rest. run (Star Space) (b @ marker @ gap @ ordinal, gap' @ raw @ trailer, None) =
      (b @ marker @ gap @ ordinal @ gap', raw @ trailer, None) # rest"
    by (rule run_star_all [where xs = gap']) (use nh n sp2 in simp_all)
  then obtain r4 where e4: "run (Star Space) (b @ marker @ gap @ ordinal, gap' @ raw @ trailer, None) =
      (b @ marker @ gap @ ordinal @ gap', raw @ trailer, None) # r4" by blast
  have "\<exists>rest. run (Plus NonSpace) (b @ marker @ gap @ ordinal @ gap', raw @ trailer, None) =
      (b @ marker @ gap @ ordinal @ gap' @ raw, trailer, None) # rest"
    by (rule run_plus_all [where xs = raw]) (use n th in \<open>simp_all add: list_all_iff\<close>)
  then obtain r5 where e5: "run (Plus NonSpace) (b @ marker @ gap @ ordinal @ gap', raw @ trailer, None) =
      (b @ marker @ gap @ ordinal @ gap' @ raw, trailer, None) # r5" by blast
  have "\<exists>rest. run (Group (Plus NonSpace)) (b @ marker @ gap @ ordinal @ gap', raw @ trailer, None) =
      (b @ marker @ gap @ ordinal @ gap' @ raw, trailer, Some raw) # rest"
    by (rule run_group_all [OF e5]) simp
  then obtain r6 where e6: "run (Group (Plus NonSpace))
      (b @ marker @ gap @ ordinal @ gap', raw @ trailer, None) =
      (b @ marker @ gap @ ordinal @ gap' @ raw, trailer, Some raw) # r6" by blast
  from run_seq_head [OF e4 e6] obtain r7 where e7:
    "run (Seq (Star Space) (Group (Plus NonSpace)))
       (b @ marker @ gap @ ordinal, gap' @ raw @ trailer, None) =
      (b @ marker @ gap @ ordinal @ gap' @ raw, trailer, Some raw) # r7" by blast
  from run_seq_head [OF e3 e7] obtain r8 where e8:
    "run (Seq (Plus Digit) (Seq (Star Space) (Group (Plus NonSpace))))
       (b @ marker @ gap, ordinal @ gap' @ raw @ trailer, None) =
      (b @ marker @ gap @ ordinal @ gap' @ raw, trailer, Some raw) # r8" by blast
  from run_seq_head [OF e2 e8] obtain r9 where e9:
    "run (Seq (Star Space) (Seq (Plus Digit) (Seq (Star Space) (Group (Plus NonSpace)))))
       (b @ marker, gap @ ordinal @ gap' @ raw @ trailer, None) =
      (b @ marker @ gap @ ordinal @ gap' @ raw, trailer, Some raw) # r9" by blast
  from run_seq_head [OF e1 e9] show ?thesis
    unfolding applied_rx_def .
qed


text \<open>No match starts inside a lead-in that holds no marker.\<close>

lemma no_marker_start:
  assumes m: "marker = js ''[X]'' \<or> marker = checkmark"
    and "\<not> includes_str (c # cs) checkmark" and "\<not> includes_str (c # cs) (js ''[X]'')"
  shows "run applied_rx (b, (c # cs) @ marker @ r, None) = []"
proof -
  from assms(2) have nc: "c \<noteq> 10003" by (simp add: checkmark_def)
  from assms(3) have nx: "\<not> prefix [91, 88, 93] (c # cs)" by (simp add: js_def)
  have "\<not> prefix [91, 88, 93] ((c # cs) @ marker @ r)"
  proof (cases cs)
    case Nil
    with m show ?thesis by (auto simp: js_def checkmark_def)
  next
    case (Cons d ds)
    show ?thesis
    proof (cases ds)
      case Nil
      with Cons m show ?thesis by (auto simp: js_def checkmark_def)
    next
      case (Cons e es)
      with \<open>cs = d # ds\<close> nx show ?thesis by simp
    qed
  qed
  with nc have "run (Alt (Lit (js ''[X]'')) (Lit checkmark)) (b, (c # cs) @ marker @ r, None) = []"
    by (simp add: js_def checkmark_def)
  then show ?thesis
    unfolding applied_rx_def by (simp only: run.simps(4) list.map concat.simps)
qed

lemma search_skips_lead:
  assumes m: "marker = js ''[X]'' \<or> marker = checkmark"
  shows "\<not> includes_str lead checkmark \<Longrightarrow> \<not> includes_str lead (js ''[X]'') \<Longrightarrow>
     search applied_rx b (lead @ marker @ r) = search applied_rx (b @ lead) (marker @ r)"
proof (induction lead arbitrary: b)
  case Nil
  show ?case by simp
next
  case (Cons c cs)
  have none: "run applied_rx (b, (c # cs) @ marker @ r, None) = []"
    by (rule no_marker_start [OF m Cons.prems])
  have "\<not> includes_str cs checkmark" "\<not> includes_str cs (js ''[X]'')"
    using Cons.prems by simp_all
  from Cons.IH [OF this, of "b @ [c]"] none show ?case
    by (simp del: run.simps)
qed

lemma marker_nonempty: "js ''[X]'' \<noteq> []" "checkmark \<noteq> []"
  by (simp_all add: js_def checkmark_def)

lemma search_applied_line:
  assumes m: "marker = js ''[X]'' \<or> marker = checkmark"
    and l: "\<not> includes_str lead checkmark" "\<not> includes_str lead (js ''[X]'')"
    and g1: "list_all isBlank gap"
    and o: "ordinal \<noteq> []" "list_all isDigit ordinal"
    and g2: "list_all isBlank gap'" "gap' \<noteq> [] \<or> \<not> starts_with_digit raw"
    and n: "raw \<noteq> []" "list_all (\<lambda>c. \<not> isSpace c) raw"
    and t: "trailer = [] \<or> isBlank (hd trailer)"
  shows "\<exists>pre e. search applied_rx [] (lead @ marker @ gap @ ordinal @ gap' @ raw @ trailer) =
           Some (pre, (e, trailer, Some raw))"
proof -
  obtain rest where r: "run applied_rx (lead, marker @ gap @ ordinal @ gap' @ raw @ trailer, None) =
      (lead @ marker @ gap @ ordinal @ gap' @ raw, trailer, Some raw) # rest"
    using run_applied_line [OF m g1 o g2 n t] by blast
  have ne: "marker @ gap @ ordinal @ gap' @ raw @ trailer \<noteq> []"
    using m marker_nonempty by auto
  have "search applied_rx lead (marker @ gap @ ordinal @ gap' @ raw @ trailer) =
      Some (lead, (lead @ marker @ gap @ ordinal @ gap' @ raw, trailer, Some raw))"
    using ne r by (cases "marker @ gap @ ordinal @ gap' @ raw @ trailer") (simp_all del: run.simps)
  with search_skips_lead [OF m l, of "[]" "gap @ ordinal @ gap' @ raw @ trailer"]
  show ?thesis by simp
qed

text \<open>Cutting the colour codes out of a name leaves its plain text.\<close>

lemma run_ansi_none:
  "r = [] \<or> hd r \<noteq> 27 \<Longrightarrow> run ansi_rx (b, r, None) = []"
  by (cases r) (auto simp: ansi_rx_def)

lemma replace_all_nil: "replace_all ansi_rx b [] = []"
proof -
  have "run ansi_rx (b, [], None) = []" by (rule run_ansi_none) simp
  then show ?thesis by (subst replace_all.simps) (simp del: replace_all.simps)
qed

lemma replace_all_plain:
  "list_all (\<lambda>c. c \<noteq> 27) t \<Longrightarrow>
     replace_all ansi_rx b (t @ r) = t @ replace_all ansi_rx (b @ t) r"
proof (induction t arbitrary: b)
  case Nil
  show ?case by simp
next
  case (Cons c cs)
  then have "run ansi_rx (b, (c # cs) @ r, None) = []" by (intro run_ansi_none) simp
  moreover have "replace_all ansi_rx (b @ [c]) (cs @ r) = cs @ replace_all ansi_rx ((b @ [c]) @ cs) r"
    using Cons by (simp del: replace_all.simps)
  ultimately show ?case by (subst replace_all.simps) (simp del: replace_all.simps)
qed

lemma run_ansi_colour:
  assumes "list_all (\<lambda>c. isDigit c \<or> c = 59) ps"
  shows "\<exists>rest. run ansi_rx (b, [27, 91] @ ps @ [109] @ r, None) =
           (b @ [27, 91] @ ps @ [109], r, None) # rest"
proof -
  have e1: "run (Lit [27, 91]) (b, [27, 91] @ ps @ [109] @ r, None) =
      (b @ [27, 91], ps @ [109] @ r, None) # []"
    by simp
  have ap: "list_all (in_class AnsiParam) ps" using assms by (simp add: list_all_iff)
  have "\<exists>rest. run (Star AnsiParam) (b @ [27, 91], ps @ [109] @ r, None) =
      (b @ [27, 91] @ ps, [109] @ r, None) # rest"
    by (rule run_star_all [where xs = ps]) (use ap in \<open>simp_all add: isDigit_def\<close>)
  then obtain r2 where e2: "run (Star AnsiParam) (b @ [27, 91], ps @ [109] @ r, None) =
      (b @ [27, 91] @ ps, [109] @ r, None) # r2" by blast
  have e3: "run (Lit [109]) (b @ [27, 91] @ ps, [109] @ r, None) =
      (b @ [27, 91] @ ps @ [109], r, None) # []"
    by simp
  from run_seq_head [OF e2 e3] obtain r4 where e4:
    "run (Seq (Star AnsiParam) (Lit [109])) (b @ [27, 91], ps @ [109] @ r, None) =
      (b @ [27, 91] @ ps @ [109], r, None) # r4" by blast
  from run_seq_head [OF e1 e4] show ?thesis
    unfolding ansi_rx_def .
qed

lemma replace_all_colour:
  assumes "list_all (\<lambda>c. isDigit c \<or> c = 59) ps"
  shows "replace_all ansi_rx b ([27, 91] @ ps @ [109] @ r) =
           replace_all ansi_rx (b @ [27, 91] @ ps @ [109]) r"
proof -
  obtain rest where "run ansi_rx (b, [27, 91] @ ps @ [109] @ r, None) =
      (b @ [27, 91] @ ps @ [109], r, None) # rest"
    using run_ansi_colour [OF assms] by blast
  then show ?thesis by (subst replace_all.simps) (simp del: replace_all.simps)
qed

lemma strip_name_parts:
  "list_all well_formed_part parts \<Longrightarrow>
     replace_all ansi_rx b (concat (map part_text parts)) = concat (map part_plain parts)"
proof (induction parts arbitrary: b)
  case Nil
  show ?case by (simp add: replace_all_nil del: replace_all.simps)
next
  case (Cons p ps)
  then have ih: "\<And>b. replace_all ansi_rx b (concat (map part_text ps)) = concat (map part_plain ps)"
    by (simp del: replace_all.simps)
  show ?case
  proof (cases p)
    case (Plain t)
    with Cons.prems have "list_all (\<lambda>c. c \<noteq> 27) t" by (simp add: list_all_iff)
    from replace_all_plain [OF this, of b "concat (map part_text ps)"] Plain ih
    show ?thesis by (simp del: replace_all.simps)
  next
    case (Colour cs)
    with Cons.prems have "list_all (\<lambda>c. isDigit c \<or> c = 59) cs" by simp
    from replace_all_colour [OF this, of b "concat (map part_text ps)"] Colour ih
    show ?thesis by (simp del: replace_all.simps)
  qed
qed

lemma name_parts_nonspace:
  "list_all well_formed_part parts \<Longrightarrow>
     list_all (\<lambda>c. \<not> isSpace c) (concat (map part_text parts))"
proof (induction parts)
  case Nil
  show ?case by simp
next
  case (Cons p ps)
  have k: "\<not> isSpace 27" "\<not> isSpace 91" "\<not> isSpace 109" "\<not> isSpace 59"
    by (simp_all add: isSpace_def)
  show ?case
  proof (cases p)
    case (Plain t)
    with Cons show ?thesis by (auto simp: list_all_iff)
  next
    case (Colour cs)
    with Cons k show ?thesis by (auto simp: list_all_iff dest: digit_not_space)
  qed
qed


text \<open>No match on a line without a marker that an ordinal follows.\<close>

lemma greedy_members:
  "(b', r') \<in> set (greedy p b r) \<Longrightarrow> r' = dropWhile p r \<or> (r' \<noteq> [] \<and> p (hd r'))"
  by (induction r arbitrary: b) (auto split: if_splits)

lemma run_plus_digit_none:
  "\<not> starts_with_digit r \<Longrightarrow> run (Plus Digit) (b, r, g) = []"
  by (cases r) (simp_all add: starts_with_digit_def)

lemma run_seq_nil:
  assumes "\<And>st'. st' \<in> set (run x st) \<Longrightarrow> run y st' = []"
  shows "run (Seq x y) st = []"
  using assms by simp

lemma run_seq_first_nil: "run x st = [] \<Longrightarrow> run (Seq x y) st = []"
  by simp

lemma after_marker_none:
  assumes "\<not> starts_with_digit (dropWhile isSpace r)"
  shows "run (Seq (Star Space) (Seq (Plus Digit) y)) (b, r, None) = []"
proof -
  have "run (Seq (Plus Digit) y) st = []" if "st \<in> set (run (Star Space) (b, r, None))" for st
  proof -
    from that obtain b' r' where st: "st = (b', r', None)"
      and m: "(b', r') \<in> set (greedy isSpace b r)"
      by (auto simp: in_class.simps [abs_def])
    from greedy_members [OF m] have "\<not> starts_with_digit r'"
      using assms by (auto simp: starts_with_digit_def neq_Nil_conv dest: digit_not_space)
    then have "run (Plus Digit) (b', r', None) = []"
      by (rule run_plus_digit_none)
    then show ?thesis
      unfolding st by (rule run_seq_first_nil)
  qed
  then show ?thesis
    by (rule run_seq_nil)
qed

lemma no_ordinal_no_match:
  assumes "\<not> ordinal_after (js ''[X]'') r" and "\<not> ordinal_after checkmark r"
  shows "run applied_rx (b, r, None) = []"
proof -
  have "run (Seq (Star Space) (Seq (Plus Digit) (Seq (Star Space) (Group (Plus NonSpace))))) st = []"
    if "st \<in> set (run (Alt (Lit (js ''[X]'')) (Lit checkmark)) (b, r, None))" for st
  proof -
    from that obtain m where "m = js ''[X]'' \<or> m = checkmark" and p: "prefix m r"
      and st: "st = (b @ m, drop (length m) r, None)"
      by (auto split: if_splits)
    with assms have "\<not> starts_with_digit (dropWhile isSpace (drop (length m) r))"
      by (auto simp: ordinal_after_def)
    from after_marker_none [OF this] show ?thesis
      unfolding st .
  qed
  then show ?thesis
    unfolding applied_rx_def by (rule run_seq_nil)
qed

lemma search_no_applied_start:
  "no_applied_start t \<Longrightarrow> search applied_rx b t = None"
proof (induction t arbitrary: b)
  case Nil
  have "run applied_rx (b, [], None) = []"
    by (rule no_ordinal_no_match) (simp_all add: ordinal_after_def js_def checkmark_def)
  then show ?case by (simp del: run.simps)
next
  case (Cons c cs)
  then have "run applied_rx (b, c # cs, None) = []"
    by (intro no_ordinal_no_match) simp_all
  with Cons show ?case by (simp del: run.simps)
qed

text \<open>The parser on the lines of a well-formed report, and on the report.\<close>

lemma includes_marker:
  "m \<noteq> [] \<Longrightarrow> includes_str (lead @ m @ r) m"
  by (simp add: includes_str_sublist)

lemma parseLines_report:
  "list_all well_formed_line rows \<Longrightarrow> parseLines (map line_text rows) = applied_names rows"
proof (induction rows)
  case Nil
  show ?case by simp
next
  case (Cons row rows)
  then have ih: "parseLines (map line_text rows) = applied_names rows" by simp
  show ?case
  proof (cases row)
    case (AppliedLine lead marker gap ordinal gap' parts trailer)
    let ?raw = "concat (map part_text parts)"
    from AppliedLine Cons.prems
    have m: "marker = js ''[X]'' \<or> marker = checkmark"
      and l: "\<not> includes_str lead checkmark" "\<not> includes_str lead (js ''[X]'')"
      and g1: "list_all isBlank gap"
      and o: "ordinal \<noteq> []" "list_all isDigit ordinal"
      and g2: "list_all isBlank gap'" "gap' \<noteq> [] \<or> \<not> starts_with_digit ?raw"
      and n: "?raw \<noteq> []" and wp: "list_all well_formed_part parts"
      and t: "trailer = [] \<or> isBlank (hd trailer)"
      by simp_all
    have ns: "list_all (\<lambda>c. \<not> isSpace c) ?raw"
      by (rule name_parts_nonspace [OF wp])
    obtain pre e where se: "search applied_rx []
        (lead @ marker @ gap @ ordinal @ gap' @ ?raw @ trailer) = Some (pre, (e, trailer, Some ?raw))"
      using search_applied_line [OF m l g1 o g2 n ns t] by blast
    have inc: "includes_str (lead @ marker @ gap @ ordinal @ gap' @ ?raw @ trailer) checkmark \<or>
        includes_str (lead @ marker @ gap @ ordinal @ gap' @ ?raw @ trailer) (js ''[X]'')"
      using m includes_marker marker_nonempty by metis
    have "parseLines (line_text row # map line_text rows) =
        replace_all ansi_rx [] ?raw # parseLines (map line_text rows)"
      using AppliedLine inc se by (simp del: search.simps replace_all.simps)
    then show ?thesis
      using AppliedLine ih strip_name_parts [OF wp, of "[]"]
      by (simp del: search.simps replace_all.simps)
  next
    case (OtherLine t)
    with Cons.prems have "search applied_rx [] t = None"
      by (simp add: search_no_applied_start)
    with OtherLine ih show ?thesis by (simp del: search.simps)
  qed
qed

lemma split_lines_single: "10 \<notin> set l \<Longrightarrow> split_lines l = [l]"
  by (induction l) auto

lemma split_lines_append:
  "10 \<notin> set l \<Longrightarrow> split_lines (l @ 10 # r) = l # split_lines r"
  by (induction l) auto

lemma split_join_lines:
  "ls \<noteq> [] \<Longrightarrow> list_all (\<lambda>l. 10 \<notin> set l) ls \<Longrightarrow> split_lines (join_lines ls) = ls"
proof (induction ls rule: join_lines.induct)
  case 1
  then show ?case by simp
next
  case (2 l)
  then show ?case by (simp add: split_lines_single)
next
  case (3 l l' ls)
  then show ?case by (simp add: split_lines_append)
qed

lemma well_formed_no_linefeed:
  assumes "well_formed_line row"
  shows "10 \<notin> set (line_text row)"
proof (cases row)
  case (AppliedLine lead marker gap ordinal gap' parts trailer)
  with assms have "10 \<notin> set lead" "marker = js ''[X]'' \<or> marker = checkmark"
    and "list_all isBlank gap" "list_all isDigit ordinal" "list_all isBlank gap'"
    and wp: "list_all well_formed_part parts" and "10 \<notin> set trailer"
    by simp_all
  moreover have "list_all (\<lambda>c. \<not> isSpace c) (concat (map part_text parts))"
    by (rule name_parts_nonspace [OF wp])
  moreover have "\<not> isDigit 10" "isSpace 10" "\<not> isBlank 10"
    by (simp_all add: isDigit_def isSpace_def isBlank_def)
  ultimately show ?thesis
    using AppliedLine by (auto simp: js_def checkmark_def list_all_iff)
next
  case (OtherLine t)
  with assms show ?thesis by simp
qed

lemma parse_status_report:
  assumes "list_all well_formed_line rows"
  shows "parseAppliedMigrations (status_report rows) = applied_names rows"
proof (cases "rows = []")
  case True
  then show ?thesis
    by (simp add: parseAppliedMigrations_def status_report_def js_def checkmark_def)
next
  case False
  have "list_all (\<lambda>l. 10 \<notin> set l) (map line_text rows)"
    using assms by (auto simp: list_all_iff dest: well_formed_no_linefeed)
  with False have "split_lines (join_lines (map line_text rows)) = map line_text rows"
    by (intro split_join_lines) simp_all
  then show ?thesis
    using assms by (simp add: parseAppliedMigrations_def status_report_def parseLines_report)
qed


subsection \<open>Three files, two of them applied\<close>

lemma scanFiles_all_readable:
  assumes "\<forall>f \<in> set fs. \<exists>x. rd f = Inr x"
  shows "scanFiles rd fs =
           (Inr (map (\<lambda>f. newMigration f (projr (rd f))) fs), map StatAndRead fs)"
  using assms by (induction fs) auto

lemma newMigration_fields:
  "name (newMigration f x) = f"
  "status (newMigration f x) = Pending"
  "timestamp (newMigration f x) =
     (case leading_digit_run f of Some d \<Rightarrow> parseInt d | None \<Rightarrow> birthtimeMs x)"
  by (simp_all add: newMigration_def match_leading_digits)

lemma parseInt_samples:
  "parseInt (js ''100'') = 100" "parseInt (js ''200'') = 200" "parseInt (js ''300'') = 300"
  by (simp_all add: parseInt_def to_double_def js_def)

lemma sort_three:
  fixes key :: "'a \<Rightarrow> rat"
  assumes m: "mset xs = {#a, b, c#}"
    and k: "key a < key b" "key b < key c"
  shows "sort_key key xs = [a, b, c]"
proof (rule properties_for_sort_key)
  show "mset [a, b, c] = mset xs" using m by simp
  show "sorted (map key [a, b, c])" using k by simp
  fix x assume "x \<in> set [a, b, c]"
  have m': "mset xs = mset [a, b, c]" using m by simp
  have e: "mset (filter (\<lambda>y. key x = key y) xs) = mset (filter (\<lambda>y. key x = key y) [a, b, c])"
    by (simp only: mset_filter m')
  from \<open>x \<in> set [a, b, c]\<close> k have "\<exists>z. filter (\<lambda>y. key x = key y) [a, b, c] = [z]"
    by auto
  then obtain z where z: "filter (\<lambda>y. key x = key y) [a, b, c] = [z]" by blast
  from e have "mset (filter (\<lambda>y. key x = key y) xs) = {#z#}" unfolding z by simp
  then have "filter (\<lambda>y. key x = key y) xs = [z]" by (simp only: mset_single_iff)
  with z show "filter (\<lambda>y. key x = key y) [a, b, c] = filter (\<lambda>y. key x = key y) xs" by simp
qed


text \<open>The state after a load whose scan and status command both succeed.\<close>

lemma load_status_success:
  assumes "\<not> isLoading s"
    and "cache_get (now_lookup env) (js ''migrations'') (cache s) = (None, c')"
    and "scanDirectory env (migrationsDir s) = (Inr scanned, io)"
    and "execShowStatus env = Inr out"
  shows "loadMigrations lc env s =
    ((log_line (js ''Loaded '' @ toString_nat (length scanned) @ js '' migrations'') Success
       (updateMigrationsList lc
         ((log_line (js ''Loading migrations...'') Info (s\<lparr>cache := c', isLoading := True\<rparr>))
          \<lparr>migrations := markApplied (parseAppliedMigrations out) (sort_key timestamp scanned),
           dbInfo := (dbInfo s)\<lparr>connected := True, migrationsCount := length scanned,
              pendingCount := length (filter (\<lambda>m. status m = Pending)
                 (markApplied (parseAppliedMigrations out) (sort_key timestamp scanned))),
              lastCheck := now_check env\<rparr>,
           cache := cache_set (now_store env) (js ''migrations'')
                      (markApplied (parseAppliedMigrations out) (sort_key timestamp scanned))
                      (Some 60000) c'\<rparr>)))
      \<lparr>isLoading := False\<rparr>,
     io @ [ExecSync (showStatus (commands s))])"
  using assms by (simp add: loadMigrations_def Let_def markApplied_def state_frame)

lemma agrees_iff_run:
  assumes "leading_digit_run f = Some d"
  shows "agrees_with_applied toks f = list_ex (\<lambda>tok. first_digit_run tok = Some d) toks"
  using assms by (simp add: agrees_with_applied_def)

lemma three_files_by_parsed_names:
  assumes idle: "\<not> isLoading s"
    and miss: "fst (cache_get (now_lookup env) (js ''migrations'') (cache s)) = None"
    and dir: "ensureDir env = None" "readdir env = Inr files"
    and three: "mset (filter isMigrationFile files) = {#f1, f2, f3#}"
    and readable: "statAndRead env f1 = Inr x1" "statAndRead env f2 = Inr x2"
      "statAndRead env f3 = Inr x3"
    and runs: "leading_digit_run f1 = Some (js ''100'')" "leading_digit_run f2 = Some (js ''200'')"
      "leading_digit_run f3 = Some (js ''300'')"
    and out: "execShowStatus env = Inr out"
    and applied: "list_ex (\<lambda>tok. first_digit_run tok = Some (js ''100'')) (parseAppliedMigrations out)"
      "list_ex (\<lambda>tok. first_digit_run tok = Some (js ''300'')) (parseAppliedMigrations out)"
      "\<not> list_ex (\<lambda>tok. first_digit_run tok = Some (js ''200'')) (parseAppliedMigrations out)"
  shows "map (\<lambda>m. (name m, timestamp m, status m)) (migrations (fst (loadMigrations lc env s)))
           = [(f1, 100, Applied), (f2, 200, Pending), (f3, 300, Applied)]
    \<and> pendingCount (dbInfo (fst (loadMigrations lc env s))) = 1
    \<and> migrationsCount (dbInfo (fst (loadMigrations lc env s))) = 3"
proof -
  define g where "g = (\<lambda>f. newMigration f (projr (statAndRead env f)))"
  let ?fs = "filter isMigrationFile files"
  have mem: "set ?fs = {f1, f2, f3}"
    using three by (metis set_mset_mset set_mset_add_mset_insert set_mset_empty)
  then have "\<forall>f \<in> set ?fs. \<exists>x. statAndRead env f = Inr x"
    using readable by auto
  from scanFiles_all_readable [OF this]
  have sf: "scanFiles (statAndRead env) ?fs = (Inr (map g ?fs), map StatAndRead ?fs)"
    by (simp add: g_def)
  have sc: "scanDirectory env (migrationsDir s) =
      (Inr (map g ?fs), [EnsureDir (migrationsDir s), Readdir (migrationsDir s)] @ map StatAndRead ?fs)"
    using dir sf by (simp add: scanDirectory_def)
  have ts: "timestamp (g f1) = 100" "timestamp (g f2) = 200" "timestamp (g f3) = 300"
    using runs by (simp_all add: g_def parseInt_samples newMigration_fields)
  have "mset (map g ?fs) = image_mset g (mset ?fs)"
    by (simp only: mset_map)
  also have "\<dots> = {#g f1, g f2, g f3#}"
    by (simp only: three image_mset_add_mset image_mset_empty)
  finally have "mset (map g ?fs) = {#g f1, g f2, g f3#}" .
  from sort_three [OF this, of timestamp] ts
  have sorted: "sort_key timestamp (map g ?fs) = [g f1, g f2, g f3]" by simp
  have ag: "agrees_with_applied (parseAppliedMigrations out) f1"
    "\<not> agrees_with_applied (parseAppliedMigrations out) f2"
    "agrees_with_applied (parseAppliedMigrations out) f3"
    using applied runs by (simp_all add: agrees_iff_run)
  have nm: "name (g f1) = f1" "name (g f2) = f2" "name (g f3) = f3"
    and st: "status (g f1) = Pending" "status (g f2) = Pending" "status (g f3) = Pending"
    by (simp_all add: g_def newMigration_fields)
  have ma: "markApplied (parseAppliedMigrations out) [g f1, g f2, g f3] =
      [(g f1)\<lparr>status := Applied\<rparr>, g f2, (g f3)\<lparr>status := Applied\<rparr>]"
    using ag nm by (simp add: markApplied_def isApplied_iff)
  obtain c' where c': "cache_get (now_lookup env) (js ''migrations'') (cache s) = (None, c')"
    using miss by (cases "cache_get (now_lookup env) (js ''migrations'') (cache s)") simp
  have len: "length ?fs = 3"
    using three by (metis size_mset size_add_mset size_empty numeral_3_eq_3)
  note ld = load_status_success [OF idle c' sc out, of lc, unfolded sorted ma]
  have m: "migrations (fst (loadMigrations lc env s)) =
      [(g f1)\<lparr>status := Applied\<rparr>, g f2, (g f3)\<lparr>status := Applied\<rparr>]"
    by (simp add: ld state_frame)
  have pc: "pendingCount (dbInfo (fst (loadMigrations lc env s))) = 1"
    by (simp add: ld st state_frame)
  have mc: "migrationsCount (dbInfo (fst (loadMigrations lc env s))) = 3"
    by (simp add: ld len state_frame)
  show ?thesis
    unfolding m using pc mc ts nm st by simp
qed


text \<open>
  C2. Let a load that is not already in flight miss the cache and scan a directory whose
  migration files, in whatever order the directory lists them, are three readable files
  with the leading digit runs 100, 200 and 300; let the status command print a
  well-formed report (applied lines with either marker, after a lead-in that holds no
  marker, with no blank, one or several around the ordinal, with names plain or coloured
  whose only escape characters are those of the colour codes, with or without a trailer;
  other lines, in which no marker is followed by an ordinal) whose applied names, the colour
  codes stripped, have the digit runs 100 and 300, both of them and no other.
  Then the inventory holds the three records in the order 100, 200, 300 with the statuses
  Applied, Pending, Applied, \<open>pendingCount\<close> is 1 and \<open>migrationsCount\<close> is 3.
\<close>

theorem three_files_two_applied:
  assumes idle: "\<not> isLoading s"
    and miss: "fst (cache_get (now_lookup env) (js ''migrations'') (cache s)) = None"
    and dir: "ensureDir env = None" "readdir env = Inr files"
    and three: "mset (filter isMigrationFile files) = {#f1, f2, f3#}"
    and readable: "statAndRead env f1 = Inr x1" "statAndRead env f2 = Inr x2"
      "statAndRead env f3 = Inr x3"
    and runs: "leading_digit_run f1 = Some (js ''100'')" "leading_digit_run f2 = Some (js ''200'')"
      "leading_digit_run f3 = Some (js ''300'')"
    and out: "execShowStatus env = Inr (status_report rows)"
    and wf: "list_all well_formed_line rows"
    and only: "list_all (\<lambda>nm. first_digit_run nm = Some (js ''100'') \<or>
                             first_digit_run nm = Some (js ''300'')) (applied_names rows)"
    and both: "list_ex (\<lambda>nm. first_digit_run nm = Some (js ''100'')) (applied_names rows)"
      "list_ex (\<lambda>nm. first_digit_run nm = Some (js ''300'')) (applied_names rows)"
  shows "map (\<lambda>m. (name m, timestamp m, status m)) (migrations (fst (loadMigrations lc env s)))
           = [(f1, 100, Applied), (f2, 200, Pending), (f3, 300, Applied)]
    \<and> pendingCount (dbInfo (fst (loadMigrations lc env s))) = 1
    \<and> migrationsCount (dbInfo (fst (loadMigrations lc env s))) = 3"
proof -
  have p: "parseAppliedMigrations (status_report rows) = applied_names rows"
    by (rule parse_status_report [OF wf])
  have d: "js ''200'' \<noteq> js ''100''" "js ''200'' \<noteq> js ''300''"
    by (simp_all add: js_def)
  have none: "\<not> list_ex (\<lambda>nm. first_digit_run nm = Some (js ''200'')) (applied_names rows)"
    using only d by (auto simp: list_all_iff list_ex_iff)
  show ?thesis
    by (rule three_files_by_parsed_names [OF idle miss dir three readable runs out])
       (simp_all add: p both none)
qed

theorem three_files_two_applied_witness:
  "status_report sample_report
     = js ''Legend: [X] applied '' @ checkmark @ js '' applied, [ ] pending'' @ [10]
       @ js ''  [X] 1  '' @ [27] @ js ''[32mInit100'' @ [27] @ js ''[0m'' @ [10]
       @ js ''[ ] 2 Mid200'' @ [10]
       @ checkmark @ js '' 3 Last300 (applied)''
   \<and> parseAppliedMigrations (status_report sample_report) = [js ''Init100'', js ''Last300'']
   \<and> map (\<lambda>m. (name m, timestamp m, status m))
     (migrations (fst (loadMigrations ascii_lower
        (sample_env [js ''300-c.ts'', js ''notes.txt'', js ''100-a.ts'', js ''200-b.js'']
           (Inr (status_report sample_report)))
        sample_shell)))
     = [(js ''100-a.ts'', 100, Applied), (js ''200-b.js'', 200, Pending),
        (js ''300-c.ts'', 300, Applied)]
   \<and> pendingCount (dbInfo (fst (loadMigrations ascii_lower
        (sample_env [js ''300-c.ts'', js ''notes.txt'', js ''100-a.ts'', js ''200-b.js'']
           (Inr (status_report sample_report)))
        sample_shell))) = 1
   \<and> migrationsCount (dbInfo (fst (loadMigrations ascii_lower
        (sample_env [js ''300-c.ts'', js ''notes.txt'', js ''100-a.ts'', js ''200-b.js'']
           (Inr (status_report sample_report)))
        sample_shell))) = 3"
proof -
  let ?env = "sample_env [js ''300-c.ts'', js ''notes.txt'', js ''100-a.ts'', js ''200-b.js'']
           (Inr (status_report sample_report))"
  have report: "status_report sample_report
     = js ''Legend: [X] applied '' @ checkmark @ js '' applied, [ ] pending'' @ [10]
       @ js ''  [X] 1  '' @ [27] @ js ''[32mInit100'' @ [27] @ js ''[0m'' @ [10]
       @ js ''[ ] 2 Mid200'' @ [10]
       @ checkmark @ js '' 3 Last300 (applied)''"
    by (simp add: status_report_def sample_report_def js_def)
  have parsed: "parseAppliedMigrations (status_report sample_report)
      = [js ''Init100'', js ''Last300'']"
    unfolding report by (simp add: eval_parse)
  have idle: "\<not> isLoading sample_shell"
    by (simp add: eval_shell)
  have miss: "fst (cache_get (now_lookup ?env) (js ''migrations'') (cache sample_shell)) = None"
    by (simp add: eval_shell cache_get_def)
  have dir: "ensureDir ?env = None"
    "readdir ?env = Inr [js ''300-c.ts'', js ''notes.txt'', js ''100-a.ts'', js ''200-b.js'']"
    by (simp_all add: sample_env_def)
  have three: "mset (filter isMigrationFile
        [js ''300-c.ts'', js ''notes.txt'', js ''100-a.ts'', js ''200-b.js''])
      = {#js ''100-a.ts'', js ''200-b.js'', js ''300-c.ts''#}"
    by (simp add: isMigrationFile_def endsWith_def suffix_to_prefix eval_strings)
  have readable: "statAndRead ?env (js ''100-a.ts'') = Inr sample_facts"
    "statAndRead ?env (js ''200-b.js'') = Inr sample_facts"
    "statAndRead ?env (js ''300-c.ts'') = Inr sample_facts"
    by (simp_all add: sample_env_def)
  have runs: "leading_digit_run (js ''100-a.ts'') = Some (js ''100'')"
    "leading_digit_run (js ''200-b.js'') = Some (js ''200'')"
    "leading_digit_run (js ''300-c.ts'') = Some (js ''300'')"
    by (simp_all add: leading_digit_run_def eval_strings)
  have out: "execShowStatus ?env = Inr (status_report sample_report)"
    by (simp add: sample_env_def)
  have wf: "list_all well_formed_line sample_report"
    by (simp add: sample_report_def eval_strings isBlank_def ordinal_after_def
        starts_with_digit_def)
  have only: "list_all (\<lambda>nm. first_digit_run nm = Some (js ''100'') \<or>
                             first_digit_run nm = Some (js ''300'')) (applied_names sample_report)"
    by (simp add: sample_report_def first_digit_run_def leading_digit_run_def eval_strings)
  have both: "list_ex (\<lambda>nm. first_digit_run nm = Some (js ''100'')) (applied_names sample_report)"
    "list_ex (\<lambda>nm. first_digit_run nm = Some (js ''300'')) (applied_names sample_report)"
    by (simp_all add: sample_report_def first_digit_run_def leading_digit_run_def eval_strings)
  note loaded = three_files_two_applied [OF idle miss dir three readable runs out wf only both,
      of ascii_lower]
  show ?thesis
    by (intro conjI report parsed loaded [THEN conjunct1]
        loaded [THEN conjunct2, THEN conjunct1] loaded [THEN conjunct2, THEN conjunct2])
qed


subsection \<open>The mutation commands\<close>

lemma create_generate_fixed:
  "createMigration_command s nm = createMigration_command s' nm"
  "generateMigration_command s nm = generateMigration_command s' nm"
  by (simp_all add: createMigration_command_def generateMigration_command_def)

text \<open>
  C9 fails on the code. With the configuration of the README, whose \<^verbatim>\<open>commands\<close> carry
  \<^verbatim>\<open>create\<close> and \<^verbatim>\<open>generate\<close>, the shell runs the configured strings for apply-all and
  revert-last, but for the name \<^verbatim>\<open>AddUsers\<close> the create and generate dialogs run the fixed
  \<^verbatim>\<open>pnpm run migration:create migrations/AddUsers\<close> and
  \<^verbatim>\<open>pnpm run migration:generate migrations/AddUsers\<close>, not the configured strings.
\<close>

theorem create_generate_ignore_configuration:
  "command_property readme_config (js ''create'') = Some (js ''npm run migration:create'')
   \<and> createMigration_command (new_shell (js ''/app/migrations'') readme_config) (js ''AddUsers'')
       = Some (js ''pnpm run migration:create migrations/AddUsers'')
   \<and> command_property readme_config (js ''generate'') = Some (js ''npm run migration:generate'')
   \<and> generateMigration_command (new_shell (js ''/app/migrations'') readme_config) (js ''AddUsers'')
       = Some (js ''pnpm run migration:generate migrations/AddUsers'')
   \<and> applyMigrations_command (new_shell (js ''/app/migrations'') readme_config) True
       = Some (js ''npm run migrate:up'')
   \<and> revertMigration_command (new_shell (js ''/app/migrations'') readme_config) True
       = Some (js ''npm run migrate:down'')"
  by (simp add: command_property_def readme_config_def createMigration_command_def
      generateMigration_command_def applyMigrations_command_def revertMigration_command_def
      new_shell_def or_default_def trim_truthy_def eval_strings)

end
